theory Spec2Isabelle
  imports Main "HOL-Library.Word" "HOL-Library.List_Lexorder"
begin

unbundle bit_operations_syntax

section \<open>Data model of \<open>write.ts\<close>\<close>

text \<open>
  A \<open>Uint8Array\<close> or \<open>ArrayBuffer\<close> is the list of its bytes. A JavaScript string is
  the list of its UTF-16 code units, so that \<open>a > b\<close> on strings is the lexicographic
  order of \<open>HOL-Library.List_Lexorder\<close> on code units. Numbers that the source only uses
  as unsigned integers (sizes, counts, header scalars) are \<open>nat\<close>; the sample bounds,
  which the source writes as signed or unsigned, are \<open>int\<close>. Additions of lengths and
  offsets are exact, as they are in doubles below \<open>2 ^ 53\<close>.
\<close>

type_synonym byte = "8 word"
type_synonym bytes = "byte list"
type_synonym jsstring = "16 word list"

text \<open>A key/value value is \<open>string | Uint8Array\<close>.\<close>

datatype kv_value = Text jsstring | Raw bytes

record level =
  levelData :: bytes
  uncompressedByteLength :: nat

record image_desc =
  imageFlags :: nat
  rgbSliceByteOffset :: nat
  rgbSliceByteLength :: nat
  alphaSliceByteOffset :: nat
  alphaSliceByteLength :: nat

record global_data =
  endpointCount :: nat
  selectorCount :: nat
  endpointsData :: bytes
  selectorsData :: bytes
  tablesData :: bytes
  extendedData :: bytes
  imageDescs :: "image_desc list"

record sample =
  bitOffset :: nat
  bitLength :: nat
  channelType :: nat
  samplePosition :: "nat list"
  sampleLower :: int
  sampleUpper :: int

text \<open>
  \<open>texelBlockDimension\<close> is tested with \<open>Array.isArray\<close> at run time: it is either the
  legacy scalar or an array of numbers (of any length).
\<close>

datatype texel_dim = Scalar nat | Array "nat list"

record dfd_block =
  vendorId :: nat
  descriptorType :: nat
  versionNumber :: nat
  colorModel :: nat
  colorPrimaries :: nat
  transferFunction :: nat
  flags :: nat
  texelBlockDimension :: texel_dim
  bytesPlane :: "nat list"
  samples :: "sample list"

text \<open>
  \<open>keyValue\<close> is an object: its own properties in enumeration order, an association
  list whose keys are distinct (\<open>distinct (map fst (keyValue c))\<close>).
\<close>

record container =
  vkFormat :: nat
  typeSize :: nat
  pixelWidth :: nat
  pixelHeight :: nat
  pixelDepth :: nat
  layerCount :: nat
  faceCount :: nat
  supercompressionScheme :: nat
  levels :: "level list"
  dataFormatDescriptor :: "dfd_block list"
  keyValue :: "(jsstring \<times> kv_value) list"
  globalData :: "global_data option"

text \<open>\<open>WriteOptions\<close>: \<open>keepWriter\<close> is optional.\<close>

record write_options =
  keepWriter :: "bool option"

definition DEFAULT_OPTIONS :: write_options where
  "DEFAULT_OPTIONS = \<lparr>keepWriter = Some False\<rparr>"

text \<open>\<open>{ ...DEFAULT_OPTIONS, ...options }\<close>: a property of \<open>options\<close> that is present wins.\<close>

definition merge_options :: "write_options \<Rightarrow> write_options \<Rightarrow> write_options" where
  "merge_options d opts =
     \<lparr>keepWriter = (case keepWriter opts of None \<Rightarrow> keepWriter d | Some b \<Rightarrow> Some b)\<rparr>"

text \<open>
  The constants that \<open>write.ts\<close> imports from \<open>constants-internal.js\<close> and
  \<open>constants.js\<close>, and the helper \<open>getBlockByteLength\<close> of \<open>util.js\<close>, are not part of
  the source at hand and the specification gives no value for them: they are parameters
  of the model. \<open>KTX2_ID\<close> is an array of numbers, \<open>KTX_WRITER\<close> a string.
\<close>

record externals =
  KTX2_ID :: "nat list"
  KTX_WRITER :: jsstring
  KHR_DF_KHR_DESCRIPTORTYPE_BASICFORMAT :: nat
  KHR_DF_SAMPLE_DATATYPE_SIGNED :: nat
  KHR_SUPERCOMPRESSION_NONE :: nat
  getBlockByteLength :: "container \<Rightarrow> nat"

text \<open>
  Modelled from the spec: \<open>HEADER_BYTE_LENGTH\<close> (\<open>constants-internal.js\<close>), the fixed
  header size. Section 6 lays the header out as 9 u32 scalars, 2 (u32, u32) pairs and
  1 (u64, u64) pair, 68 bytes; the header writer of the source fills exactly the bytes
  0 to 67.
\<close>

definition HEADER_BYTE_LENGTH :: nat where
  "HEADER_BYTE_LENGTH = 68"

text \<open>Modelled from the spec: \<open>NUL\<close> (\<open>constants-internal.js\<close>), a single zero byte.\<close>

definition NUL :: bytes where
  "NUL = [0]"

datatype write_error =
  OnlyBasicFormat
  | TexelBlockDimensionNotArray

section \<open>Helpers of \<open>util.js\<close>\<close>

text \<open>
  Modelled from the spec: \<open>concat\<close> (\<open>util.js\<close>), the concatenation of the byte contents
  of the buffers, in order. Here it is \<^const>\<open>concat\<close> of lists.
\<close>

text \<open>
  Modelled from the spec: \<open>getPadding\<close> (\<open>util.js\<close>), the smallest unsigned difference
  from \<open>v\<close> up to the next multiple of \<open>n\<close>.
\<close>

definition getPadding :: "nat \<Rightarrow> nat \<Rightarrow> nat" where
  "getPadding v n = (n - v mod n) mod n"

text \<open>
  Modelled from the spec: \<open>leastCommonMultiple\<close> (\<open>util.js\<close>), the least common multiple.
\<close>

definition leastCommonMultiple :: "nat \<Rightarrow> nat \<Rightarrow> nat" where
  "leastCommonMultiple a b = lcm a b"

text \<open>
  Modelled from the spec: \<open>encodeText\<close> (\<open>util.js\<close>), UTF-8 encoding of a string. The
  code units are first read as code points (a high surrogate followed by a low one is one
  supplementary code point, a lone surrogate is U+FFFD), then each code point is encoded.
\<close>

definition is_high :: "16 word \<Rightarrow> bool" where
  "is_high u \<longleftrightarrow> 0xD800 \<le> u \<and> u \<le> 0xDBFF"

definition is_low :: "16 word \<Rightarrow> bool" where
  "is_low u \<longleftrightarrow> 0xDC00 \<le> u \<and> u \<le> 0xDFFF"

definition scalar_of :: "16 word \<Rightarrow> nat" where
  "scalar_of u = (if is_high u \<or> is_low u then 0xFFFD else unat u)"

fun code_points :: "jsstring \<Rightarrow> nat list" where
  "code_points [] = []"
| "code_points [u] = [scalar_of u]"
| "code_points (u # v # r) =
     (if is_high u \<and> is_low v
      then (0x10000 + (unat u - 0xD800) * 0x400 + (unat v - 0xDC00)) # code_points r
      else scalar_of u # code_points (v # r))"

definition utf8 :: "nat \<Rightarrow> bytes" where
  "utf8 c =
     (if c < 0x80 then [of_nat c]
      else if c < 0x800 then [of_nat (0xC0 + c div 64), of_nat (0x80 + c mod 64)]
      else if c < 0x10000 then
        [of_nat (0xE0 + c div 4096), of_nat (0x80 + c div 64 mod 64), of_nat (0x80 + c mod 64)]
      else
        [of_nat (0xF0 + c div 262144), of_nat (0x80 + c div 4096 mod 64),
         of_nat (0x80 + c div 64 mod 64), of_nat (0x80 + c mod 64)])"

definition encodeText :: "jsstring \<Rightarrow> bytes" where
  "encodeText s = concat (map utf8 (code_points s))"

section \<open>Typed arrays and \<open>DataView\<close>\<close>

text \<open>
  Little-endian bytes of an integer, reduced modulo the width as \<open>ToUint16\<close>,
  \<open>ToUint32\<close>, \<open>ToInt32\<close> and \<open>BigInt.asUintN(64, _)\<close> do. \<open>setInt32\<close> and \<open>setUint32\<close>
  store the same bytes for the same integer.
\<close>

definition u8 :: "int \<Rightarrow> bytes" where
  "u8 v = [word_of_int v]"

definition u16le :: "int \<Rightarrow> bytes" where
  "u16le v = [word_of_int v, word_of_int (v div 256)]"

definition u32le :: "int \<Rightarrow> bytes" where
  "u32le v =
     [word_of_int v, word_of_int (v div 256), word_of_int (v div 65536),
      word_of_int (v div 16777216)]"

definition u64le :: "int \<Rightarrow> bytes" where
  "u64le v = u32le v @ u32le (v div 4294967296)"

text \<open>
  A \<open>DataView\<close> write replaces the bytes at the offset. Every write of the source is
  inside its buffer, which is allocated with the size the writes need, so no
  \<open>RangeError\<close> arises.
\<close>

definition setBytes :: "bytes \<Rightarrow> nat \<Rightarrow> bytes \<Rightarrow> bytes" where
  "setBytes buf off bs = take off buf @ bs @ drop (off + length bs) buf"

definition setUint8 :: "bytes \<Rightarrow> nat \<Rightarrow> int \<Rightarrow> bytes" where
  "setUint8 buf off v = setBytes buf off (u8 v)"

definition setUint16 :: "bytes \<Rightarrow> nat \<Rightarrow> int \<Rightarrow> bytes" where
  "setUint16 buf off v = setBytes buf off (u16le v)"

definition setUint32 :: "bytes \<Rightarrow> nat \<Rightarrow> int \<Rightarrow> bytes" where
  "setUint32 buf off v = setBytes buf off (u32le v)"

definition setInt32 :: "bytes \<Rightarrow> nat \<Rightarrow> int \<Rightarrow> bytes" where
  "setInt32 buf off v = setBytes buf off (u32le v)"

definition setBigUint64 :: "bytes \<Rightarrow> nat \<Rightarrow> int \<Rightarrow> bytes" where
  "setBigUint64 buf off v = setBytes buf off (u64le v)"

text \<open>\<open>new ArrayBuffer(n)\<close> and \<open>new Uint8Array(n)\<close> are \<open>n\<close> zero bytes.\<close>

definition ArrayBuffer :: "nat \<Rightarrow> bytes" where
  "ArrayBuffer n = replicate n 0"

text \<open>
  \<open>xs[i]\<close> handed to \<open>setUint8\<close>: an index past the end reads \<open>undefined\<close>, which is
  stored as 0.
\<close>

definition elem :: "nat list \<Rightarrow> nat \<Rightarrow> int" where
  "elem xs i = (if i < length xs then int (xs ! i) else 0)"

text \<open>
  The readers, as \<open>DataView.getUint32\<close> and \<open>getBigUint64\<close> (little-endian) and
  \<open>Uint8Array.slice\<close> would read the output.
\<close>

fun le_nat :: "bytes \<Rightarrow> nat" where
  "le_nat [] = 0"
| "le_nat (b # bs) = unat b + 256 * le_nat bs"

definition slice :: "bytes \<Rightarrow> nat \<Rightarrow> nat \<Rightarrow> bytes" where
  "slice buf start end = take (end - start) (drop start buf)"

definition getUint16 :: "bytes \<Rightarrow> nat \<Rightarrow> nat" where
  "getUint16 buf off = le_nat (slice buf off (off + 2))"

definition getUint32 :: "bytes \<Rightarrow> nat \<Rightarrow> nat" where
  "getUint32 buf off = le_nat (slice buf off (off + 4))"

definition getBigUint64 :: "bytes \<Rightarrow> nat \<Rightarrow> nat" where
  "getBigUint64 buf off = le_nat (slice buf off (off + 8))"

section \<open>Supercompression Global Data (lines 35 to 62)\<close>

fun sgd_imageDescs :: "image_desc list \<Rightarrow> nat \<Rightarrow> bytes \<Rightarrow> bytes" where
  "sgd_imageDescs [] i view = view"
| "sgd_imageDescs (imageDesc # rest) i view =
     sgd_imageDescs rest (i + 1)
       (setUint32
         (setUint32
           (setUint32
             (setUint32
               (setUint32 view (20 + i * 5 * 4 + 0) (int (imageFlags imageDesc)))
               (20 + i * 5 * 4 + 4) (int (rgbSliceByteOffset imageDesc)))
             (20 + i * 5 * 4 + 8) (int (rgbSliceByteLength imageDesc)))
           (20 + i * 5 * 4 + 12) (int (alphaSliceByteOffset imageDesc)))
         (20 + i * 5 * 4 + 16) (int (alphaSliceByteLength imageDesc)))"

definition sgdHeaderBuffer :: "global_data \<Rightarrow> bytes" where
  "sgdHeaderBuffer g =
     sgd_imageDescs (imageDescs g) 0
       (setUint32
         (setUint32
           (setUint32
             (setUint32
               (setUint16
                 (setUint16 (ArrayBuffer (20 + length (imageDescs g) * 5 * 4))
                   0 (int (endpointCount g)))
                 2 (int (selectorCount g)))
               4 (int (length (endpointsData g))))
             8 (int (length (selectorsData g))))
           12 (int (length (tablesData g))))
         16 (int (length (extendedData g))))"

definition sgdBuffer :: "container \<Rightarrow> bytes" where
  "sgdBuffer c =
     (case globalData c of
        None \<Rightarrow> ArrayBuffer 0
      | Some g \<Rightarrow>
          concat [sgdHeaderBuffer g, endpointsData g, selectorsData g, tablesData g,
                  extendedData g])"

section \<open>Key/Value Data (lines 68 to 92)\<close>

text \<open>
  Object spread \<open>{ ...o, k: v }\<close>: a key that \<open>o\<close> already has keeps its place and takes
  the new value, a new key is appended.
\<close>

fun obj_set :: "('k \<times> 'v) list \<Rightarrow> 'k \<Rightarrow> 'v \<Rightarrow> ('k \<times> 'v) list" where
  "obj_set [] k v = [(k, v)]"
| "obj_set ((k', v') # ps) k v = (if k' = k then (k, v) # ps else (k', v') # obj_set ps k v)"

definition KTXwriter :: jsstring where
  "KTXwriter = map of_char ''KTXwriter''"

text \<open>The truth value of \<open>options.keepWriter\<close>; \<open>undefined\<close> is false.\<close>

definition keepWriter_of :: "write_options \<Rightarrow> bool" where
  "keepWriter_of opts = (case keepWriter opts of None \<Rightarrow> False | Some b \<Rightarrow> b)"

text \<open>
  \<open>{ ...container.keyValue, ...(!options.keepWriter && { KTXwriter: KTX_WRITER }) }\<close>;
  spreading \<open>false\<close> adds nothing.
\<close>

definition merged_keyValue ::
  "externals \<Rightarrow> container \<Rightarrow> write_options \<Rightarrow> (jsstring \<times> kv_value) list" where
  "merged_keyValue K c opts =
     (if \<not> keepWriter_of opts then obj_set (keyValue c) KTXwriter (Text (KTX_WRITER K))
      else keyValue c)"

text \<open>The comparator \<open>(a, b) => (a[0] > b[0] ? 1 : -1)\<close>.\<close>

definition compareFn :: "jsstring \<times> 'v \<Rightarrow> jsstring \<times> 'v \<Rightarrow> int" where
  "compareFn a b = (if fst a > fst b then 1 else -1)"

text \<open>
  \<open>Array.prototype.sort\<close> with a comparator, as an insertion sort: an element moves
  right past those it compares greater than. The keys of an object are distinct, and on
  distinct keys every sorting algorithm returns the same list.
\<close>

fun sort_insert :: "('a \<Rightarrow> 'a \<Rightarrow> int) \<Rightarrow> 'a \<Rightarrow> 'a list \<Rightarrow> 'a list" where
  "sort_insert cmp x [] = [x]"
| "sort_insert cmp x (y # ys) =
     (if cmp x y > 0 then y # sort_insert cmp x ys else x # y # ys)"

definition array_sort :: "('a \<Rightarrow> 'a \<Rightarrow> int) \<Rightarrow> 'a list \<Rightarrow> 'a list" where
  "array_sort cmp xs = foldr (sort_insert cmp) xs []"

definition keyValueList ::
  "externals \<Rightarrow> container \<Rightarrow> write_options \<Rightarrow> (jsstring \<times> kv_value) list" where
  "keyValueList K c opts = array_sort compareFn (merged_keyValue K c opts)"

text \<open>
  One record of the section. \<open>new Uint32Array([kvByteLength])\<close> contributes its four
  bytes, little-endian as the specification has it.
\<close>

definition kv_entry :: "jsstring \<times> kv_value \<Rightarrow> bytes" where
  "kv_entry kv =
     (let keyData = encodeText (fst kv);
          valueData = (case snd kv of Text s \<Rightarrow> concat [encodeText s, NUL] | Raw b \<Rightarrow> b);
          kvByteLength = length keyData + 1 + length valueData;
          kvPadding = getPadding kvByteLength 4
      in concat [u32le (int kvByteLength), keyData, NUL, valueData, replicate kvPadding 0])"

definition kvdBuffer :: "externals \<Rightarrow> container \<Rightarrow> write_options \<Rightarrow> bytes" where
  "kvdBuffer K c opts = concat (map kv_entry (keyValueList K c opts))"

section \<open>Data Format Descriptor (lines 98 to 153)\<close>

text \<open>
  \<open>sample.channelType & KHR_DF_SAMPLE_DATATYPE_SIGNED\<close>: both operands are taken as
  32-bit integers; the result is true when it is not 0.
\<close>

definition is_signed :: "externals \<Rightarrow> sample \<Rightarrow> bool" where
  "is_signed K s \<longleftrightarrow>
     (channelType s mod 2 ^ 32) AND (KHR_DF_SAMPLE_DATATYPE_SIGNED K mod 2 ^ 32) \<noteq> 0"

fun dfd_samples :: "externals \<Rightarrow> sample list \<Rightarrow> nat \<Rightarrow> bytes \<Rightarrow> bytes" where
  "dfd_samples K [] i view = view"
| "dfd_samples K (s # rest) i view =
     (let sampleByteOffset = 28 + i * 16;
          v1 = setUint16 view (sampleByteOffset + 0) (int (bitOffset s));
          v2 = setUint8 v1 (sampleByteOffset + 2) (int (bitLength s));
          v3 = setUint8 v2 (sampleByteOffset + 3) (int (channelType s));
          v4 = setUint8 v3 (sampleByteOffset + 4) (elem (samplePosition s) 0);
          v5 = setUint8 v4 (sampleByteOffset + 5) (elem (samplePosition s) 1);
          v6 = setUint8 v5 (sampleByteOffset + 6) (elem (samplePosition s) 2);
          v7 = setUint8 v6 (sampleByteOffset + 7) (elem (samplePosition s) 3);
          v8 = (if is_signed K s
                then setInt32 (setInt32 v7 (sampleByteOffset + 8) (sampleLower s))
                       (sampleByteOffset + 12) (sampleUpper s)
                else setUint32 (setUint32 v7 (sampleByteOffset + 8) (sampleLower s))
                       (sampleByteOffset + 12) (sampleUpper s))
      in dfd_samples K rest (i + 1) v8)"

text \<open>The writes before the test of \<open>texelBlockDimension\<close> (lines 107 to 120).\<close>

definition dfd_head :: "dfd_block \<Rightarrow> bytes" where
  "dfd_head dfd =
     (let dfdBuffer = ArrayBuffer (28 + length (samples dfd) * 16);
          descriptorBlockSize = 24 + length (samples dfd) * 16;
          v1 = setUint32 dfdBuffer 0 (int (length dfdBuffer));
          v2 = setUint16 v1 4 (int (vendorId dfd));
          v3 = setUint16 v2 6 (int (descriptorType dfd));
          v4 = setUint16 v3 8 (int (versionNumber dfd));
          v5 = setUint16 v4 10 (int descriptorBlockSize);
          v6 = setUint8 v5 12 (int (colorModel dfd));
          v7 = setUint8 v6 13 (int (colorPrimaries dfd));
          v8 = setUint8 v7 14 (int (transferFunction dfd))
      in setUint8 v8 15 (int (flags dfd)))"

text \<open>The writes after it (lines 126 to 153); \<open>tbd\<close> is the array.\<close>

definition dfdBuffer :: "externals \<Rightarrow> dfd_block \<Rightarrow> nat list \<Rightarrow> bytes" where
  "dfdBuffer K dfd tbd =
     (let v1 = setUint8 (dfd_head dfd) 16 (elem tbd 0);
          v2 = setUint8 v1 17 (elem tbd 1);
          v3 = setUint8 v2 18 (elem tbd 2);
          v4 = setUint8 v3 19 (elem tbd 3);
          v5 = fold (\<lambda>i view. setUint8 view (20 + i) (elem (bytesPlane dfd) i))
                 [0, 1, 2, 3, 4, 5, 6, 7] v4
      in dfd_samples K (samples dfd) 0 v5)"

section \<open>Data alignment (lines 159 to 162)\<close>

definition dfdByteOffset :: "externals \<Rightarrow> container \<Rightarrow> nat" where
  "dfdByteOffset K c = length (KTX2_ID K) + HEADER_BYTE_LENGTH + length (levels c) * 3 * 8"

definition sgdByteOffset :: "nat \<Rightarrow> nat \<Rightarrow> nat \<Rightarrow> nat" where
  "sgdByteOffset sgdLength kvdOffset kvdLength =
     (let s = (if sgdLength > 0 then kvdOffset + kvdLength else 0)
      in if s mod 8 \<noteq> 0 then s + (8 - s mod 8) else s)"

section \<open>Level index (lines 168 to 200)\<close>

text \<open>
  The state of the packing loop: the array \<open>levelData\<close> of payloads and paddings, the
  \<open>Uint32Array\<close> \<open>levelDataByteOffsets\<close>, whose elements are stored modulo \<open>2 ^ 32\<close>,
  and the cursor \<open>levelDataByteOffset\<close>.
\<close>

record pack_state =
  levelDataArr :: "bytes list"
  levelDataByteOffsets :: "nat list"
  levelDataByteOffset :: nat

definition levelAlign_of :: "externals \<Rightarrow> container \<Rightarrow> nat" where
  "levelAlign_of K c =
     (if supercompressionScheme c = KHR_SUPERCOMPRESSION_NONE K
      then leastCommonMultiple (getBlockByteLength K c) 4 else 0)"

text \<open>
  The body of the loop for index \<open>i\<close>. \<open>levelDataByteOffset % levelAlign\<close> is \<open>NaN\<close>,
  hence false, when \<open>levelAlign\<close> is 0.
\<close>

definition pack_level :: "nat \<Rightarrow> level list \<Rightarrow> nat \<Rightarrow> pack_state \<Rightarrow> pack_state" where
  "pack_level levelAlign lvls i s =
     (let s1 =
            (if levelAlign \<noteq> 0 \<and> levelDataByteOffset s mod levelAlign \<noteq> 0
             then (let paddingBytes = getPadding (levelDataByteOffset s) levelAlign
                   in s\<lparr>levelDataArr := levelDataArr s @ [ArrayBuffer paddingBytes],
                        levelDataByteOffset := levelDataByteOffset s + paddingBytes\<rparr>)
             else s);
          level = lvls ! i
      in s1\<lparr>levelDataArr := levelDataArr s1 @ [levelData level],
            levelDataByteOffsets :=
              (levelDataByteOffsets s1)[i := levelDataByteOffset s1 mod 2 ^ 32],
            levelDataByteOffset := levelDataByteOffset s1 + length (levelData level)\<rparr>)"

text \<open>\<open>for (let i = levels.length - 1; i >= 0; i--)\<close>: the counter is \<open>i + 1\<close>.\<close>

fun pack_levels :: "nat \<Rightarrow> level list \<Rightarrow> nat \<Rightarrow> pack_state \<Rightarrow> pack_state" where
  "pack_levels levelAlign lvls 0 s = s"
| "pack_levels levelAlign lvls (Suc i) s =
     pack_levels levelAlign lvls i (pack_level levelAlign lvls i s)"

definition packed :: "nat \<Rightarrow> level list \<Rightarrow> nat \<Rightarrow> pack_state" where
  "packed levelAlign lvls start =
     pack_levels levelAlign lvls (length lvls)
       \<lparr>levelDataArr = [], levelDataByteOffsets = replicate (length lvls) 0,
        levelDataByteOffset = start\<rparr>"

fun levelIndex_entries :: "level list \<Rightarrow> nat list \<Rightarrow> nat \<Rightarrow> bytes \<Rightarrow> bytes" where
  "levelIndex_entries [] offs i view = view"
| "levelIndex_entries (level # rest) offs i view =
     levelIndex_entries rest offs (i + 1)
       (setBigUint64
         (setBigUint64
           (setBigUint64 view (i * 24 + 0) (int (offs ! i)))
           (i * 24 + 8) (int (length (levelData level))))
         (i * 24 + 16) (int (uncompressedByteLength level)))"

definition levelIndex :: "level list \<Rightarrow> nat list \<Rightarrow> bytes" where
  "levelIndex lvls offs = levelIndex_entries lvls offs 0 (ArrayBuffer (length lvls * 3 * 8))"

section \<open>Header (lines 206 to 223)\<close>

definition headerBuffer ::
  "container \<Rightarrow> nat \<Rightarrow> nat \<Rightarrow> nat \<Rightarrow> nat \<Rightarrow> nat \<Rightarrow> nat \<Rightarrow> bytes" where
  "headerBuffer c dfdOff dfdLen kvdOff kvdLen sgdOff sgdLen =
     (let v0 = setUint32 (ArrayBuffer HEADER_BYTE_LENGTH) 0 (int (vkFormat c));
          v1 = setUint32 v0 4 (int (typeSize c));
          v2 = setUint32 v1 8 (int (pixelWidth c));
          v3 = setUint32 v2 12 (int (pixelHeight c));
          v4 = setUint32 v3 16 (int (pixelDepth c));
          v5 = setUint32 v4 20 (int (layerCount c));
          v6 = setUint32 v5 24 (int (faceCount c));
          v7 = setUint32 v6 28 (int (length (levels c)));
          v8 = setUint32 v7 32 (int (supercompressionScheme c));
          v9 = setUint32 v8 36 (int dfdOff);
          v10 = setUint32 v9 40 (int dfdLen);
          v11 = setUint32 v10 44 (int kvdOff);
          v12 = setUint32 v11 48 (int kvdLen);
          v13 = setBigUint64 v12 52 (int (if sgdLen > 0 then sgdOff else 0))
      in setBigUint64 v13 60 (int sgdLen))"

section \<open>\<open>write\<close> (lines 27 to 243)\<close>

text \<open>
  The function \<open>write\<close> of the source (named \<open>write_container\<close> here, \<open>write\<close> being
  a keyword of Isar). Both \<open>throw\<close> statements are \<open>Inl\<close> results.
\<close>

definition write_container :: "externals \<Rightarrow> container \<Rightarrow> write_options \<Rightarrow> write_error + bytes" where
  "write_container K c options =
     (let opts = merge_options DEFAULT_OPTIONS options;
          sgd = sgdBuffer c;
          kvd = kvdBuffer K c opts
      in if length (dataFormatDescriptor c) \<noteq> 1 \<or>
            descriptorType (dataFormatDescriptor c ! 0) \<noteq> KHR_DF_KHR_DESCRIPTORTYPE_BASICFORMAT K
         then Inl OnlyBasicFormat
         else
           (let dfd = dataFormatDescriptor c ! 0
            in case texelBlockDimension dfd of
                 Scalar d \<Rightarrow> Inl TexelBlockDimensionNotArray
               | Array tbd \<Rightarrow>
                   (let dfdBuf = dfdBuffer K dfd tbd;
                        dfdOff = dfdByteOffset K c;
                        kvdOff = dfdOff + length dfdBuf;
                        sgdOff = sgdByteOffset (length sgd) kvdOff (length kvd);
                        start = (if sgdOff \<noteq> 0 then sgdOff else kvdOff + length kvd) + length sgd;
                        p = packed (levelAlign_of K c) (levels c) start;
                        header =
                          headerBuffer c dfdOff (length dfdBuf) kvdOff (length kvd) sgdOff
                            (length sgd)
                    in Inr (concat
                         ([map of_nat (KTX2_ID K), header,
                           levelIndex (levels c) (levelDataByteOffsets p), dfdBuf, kvd,
                           (if sgdOff > 0 then ArrayBuffer (sgdOff - (kvdOff + length kvd))
                            else ArrayBuffer 0),
                           sgd] @ levelDataArr p)))))"

section \<open>Notions used to state the properties\<close>

text \<open>The order of two entries: that of their keys, as \<open>a[0] < b[0]\<close> compares them.\<close>

abbreviation key_less :: "jsstring \<times> 'v \<Rightarrow> jsstring \<times> 'v \<Rightarrow> bool" where
  "key_less a b \<equiv> fst a < fst b"

text \<open>
  The packing loop without the \<open>Uint32Array\<close>: \<open>place\<close> is the cursor after the padding
  step, \<open>level_pos A lvls k cur i\<close> the cursor at which the loop, entered with counter \<open>k\<close>
  and cursor \<open>cur\<close>, pushes the payload of level \<open>i\<close>, and \<open>level_bytes\<close> the bytes it
  pushes.
\<close>

definition place :: "nat \<Rightarrow> nat \<Rightarrow> nat" where
  "place levelAlign cur =
     (if levelAlign \<noteq> 0 \<and> cur mod levelAlign \<noteq> 0 then cur + getPadding cur levelAlign
      else cur)"

fun level_pos :: "nat \<Rightarrow> level list \<Rightarrow> nat \<Rightarrow> nat \<Rightarrow> nat \<Rightarrow> nat" where
  "level_pos A lvls 0 cur i = cur"
| "level_pos A lvls (Suc j) cur i =
     (if i = j then place A cur
      else level_pos A lvls j (place A cur + length (levelData (lvls ! j))) i)"

fun level_bytes :: "nat \<Rightarrow> level list \<Rightarrow> nat \<Rightarrow> nat \<Rightarrow> bytes" where
  "level_bytes A lvls 0 cur = []"
| "level_bytes A lvls (Suc j) cur =
     replicate (place A cur - cur) 0 @ levelData (lvls ! j) @
     level_bytes A lvls j (place A cur + length (levelData (lvls ! j)))"

text \<open>The level index table as a sequence of 24-byte entries.\<close>

definition levelIndex_entry :: "nat list \<Rightarrow> nat \<Rightarrow> level \<Rightarrow> bytes" where
  "levelIndex_entry offs i level =
     u64le (int (offs ! i)) @ u64le (int (length (levelData level))) @
     u64le (int (uncompressedByteLength level))"

fun levelIndex_table :: "nat list \<Rightarrow> nat \<Rightarrow> level list \<Rightarrow> bytes" where
  "levelIndex_table offs i [] = []"
| "levelIndex_table offs i (level # rest) =
     levelIndex_entry offs i level @ levelIndex_table offs (i + 1) rest"

text \<open>The records of the global data header.\<close>

definition imageDesc_record :: "image_desc \<Rightarrow> bytes" where
  "imageDesc_record d =
     u32le (int (imageFlags d)) @ u32le (int (rgbSliceByteOffset d)) @
     u32le (int (rgbSliceByteLength d)) @ u32le (int (alphaSliceByteOffset d)) @
     u32le (int (alphaSliceByteLength d))"

definition sgd_header :: "global_data \<Rightarrow> bytes" where
  "sgd_header g =
     u16le (int (endpointCount g)) @ u16le (int (selectorCount g)) @
     u32le (int (length (endpointsData g))) @ u32le (int (length (selectorsData g))) @
     u32le (int (length (tablesData g))) @ u32le (int (length (extendedData g)))"

text \<open>The header as the sequence of its fields.\<close>

definition header_fields ::
  "container \<Rightarrow> nat \<Rightarrow> nat \<Rightarrow> nat \<Rightarrow> nat \<Rightarrow> nat \<Rightarrow> nat \<Rightarrow> bytes" where
  "header_fields c dfdOff dfdLen kvdOff kvdLen sgdOff sgdLen =
     u32le (int (vkFormat c)) @ u32le (int (typeSize c)) @ u32le (int (pixelWidth c)) @
     u32le (int (pixelHeight c)) @ u32le (int (pixelDepth c)) @ u32le (int (layerCount c)) @
     u32le (int (faceCount c)) @ u32le (int (length (levels c))) @
     u32le (int (supercompressionScheme c)) @
     u32le (int dfdOff) @ u32le (int dfdLen) @ u32le (int kvdOff) @ u32le (int kvdLen) @
     u64le (int (if sgdLen > 0 then sgdOff else 0)) @ u64le (int sgdLen)"

text \<open>
  \<open>passes_checks\<close>: neither \<open>throw\<close> of the source is reached. The sections and their
  offsets, as \<open>write\<close> computes them, are named after its local constants.
\<close>

definition is_Array :: "texel_dim \<Rightarrow> bool" where
  "is_Array t = (case t of Array a \<Rightarrow> True | Scalar d \<Rightarrow> False)"

definition array_of :: "texel_dim \<Rightarrow> nat list" where
  "array_of t = (case t of Array a \<Rightarrow> a | Scalar d \<Rightarrow> [])"

definition passes_checks :: "externals \<Rightarrow> container \<Rightarrow> bool" where
  "passes_checks K c \<longleftrightarrow>
     length (dataFormatDescriptor c) = 1 \<and>
     descriptorType (dataFormatDescriptor c ! 0) = KHR_DF_KHR_DESCRIPTORTYPE_BASICFORMAT K \<and>
     is_Array (texelBlockDimension (dataFormatDescriptor c ! 0))"

definition dfd_section :: "externals \<Rightarrow> container \<Rightarrow> bytes" where
  "dfd_section K c =
     dfdBuffer K (dataFormatDescriptor c ! 0)
       (array_of (texelBlockDimension (dataFormatDescriptor c ! 0)))"

definition kvd_section :: "externals \<Rightarrow> container \<Rightarrow> write_options \<Rightarrow> bytes" where
  "kvd_section K c options = kvdBuffer K c (merge_options DEFAULT_OPTIONS options)"

definition kvdByteOffset :: "externals \<Rightarrow> container \<Rightarrow> nat" where
  "kvdByteOffset K c = dfdByteOffset K c + length (dfd_section K c)"

definition kvdByteEnd :: "externals \<Rightarrow> container \<Rightarrow> write_options \<Rightarrow> nat" where
  "kvdByteEnd K c options = kvdByteOffset K c + length (kvd_section K c options)"

definition sgdOffset :: "externals \<Rightarrow> container \<Rightarrow> write_options \<Rightarrow> nat" where
  "sgdOffset K c options =
     sgdByteOffset (length (sgdBuffer c)) (kvdByteOffset K c) (length (kvd_section K c options))"

definition levelDataStart :: "externals \<Rightarrow> container \<Rightarrow> write_options \<Rightarrow> nat" where
  "levelDataStart K c options =
     (if sgdOffset K c options \<noteq> 0 then sgdOffset K c options else kvdByteEnd K c options) +
     length (sgdBuffer c)"

definition levelOffset :: "externals \<Rightarrow> container \<Rightarrow> write_options \<Rightarrow> nat \<Rightarrow> nat" where
  "levelOffset K c options i =
     level_pos (levelAlign_of K c) (levels c) (length (levels c)) (levelDataStart K c options) i"

text \<open>The sections in file order.\<close>

definition file_image :: "externals \<Rightarrow> container \<Rightarrow> write_options \<Rightarrow> bytes" where
  "file_image K c options =
     map of_nat (KTX2_ID K) @
     header_fields c (dfdByteOffset K c) (length (dfd_section K c)) (kvdByteOffset K c)
       (length (kvd_section K c options)) (sgdOffset K c options) (length (sgdBuffer c)) @
     levelIndex_table
       (levelDataByteOffsets
         (packed (levelAlign_of K c) (levels c) (levelDataStart K c options))) 0 (levels c) @
     dfd_section K c @
     kvd_section K c options @
     replicate (sgdOffset K c options - kvdByteEnd K c options) 0 @
     sgdBuffer c @
     level_bytes (levelAlign_of K c) (levels c) (length (levels c)) (levelDataStart K c options)"

section \<open>Example inputs\<close>

text \<open>
  Values for the parameters (the identifier and constants of the KTX 2.0 format, a writer
  string, the block length as the sum of \<open>bytesPlane\<close>) and small containers, on which the
  theorems below are instantiated.
\<close>

definition example_externals :: externals where
  "example_externals =
     \<lparr>KTX2_ID = [0xAB, 0x4B, 0x54, 0x58, 0x20, 0x32, 0x30, 0xBB, 0x0D, 0x0A, 0x1A, 0x0A],
      KTX_WRITER = map of_char ''KTX-Parse v1.0.0'',
      KHR_DF_KHR_DESCRIPTORTYPE_BASICFORMAT = 0,
      KHR_DF_SAMPLE_DATATYPE_SIGNED = 0x40,
      KHR_SUPERCOMPRESSION_NONE = 0,
      getBlockByteLength = (\<lambda>c. sum_list (bytesPlane (dataFormatDescriptor c ! 0)))\<rparr>"

definition example_dfd :: dfd_block where
  "example_dfd =
     \<lparr>vendorId = 0, descriptorType = 0, versionNumber = 2, colorModel = 1, colorPrimaries = 1,
      transferFunction = 2, flags = 0, texelBlockDimension = Array [0, 0, 0, 0],
      bytesPlane = [4, 0, 0, 0, 0, 0, 0, 0], samples = []\<rparr>"

definition example_container :: container where
  "example_container =
     \<lparr>vkFormat = 37, typeSize = 1, pixelWidth = 1, pixelHeight = 1, pixelDepth = 0,
      layerCount = 0, faceCount = 1, supercompressionScheme = 0,
      levels = [\<lparr>levelData = [1, 2, 3, 4], uncompressedByteLength = 4\<rparr>],
      dataFormatDescriptor = [example_dfd],
      keyValue = [(map of_char ''Orientation'', Text (map of_char ''S''))],
      globalData = None\<rparr>"

definition writer_container :: container where
  "writer_container = example_container\<lparr>keyValue := [(KTXwriter, Text (map of_char ''mine''))]\<rparr>"



definition utf_container :: container where
  "utf_container =
     example_container\<lparr>keyValue := [([0xFF5E], Raw []), ([0xD800, 0xDC00], Raw [])]\<rparr>"

definition big_container :: container where
  "big_container =
     example_container\<lparr>levels :=
       [\<lparr>levelData = [1, 2, 3, 4], uncompressedByteLength = 4\<rparr>,
        \<lparr>levelData = replicate (2 ^ 32) 0, uncompressedByteLength = 2 ^ 32\<rparr>]\<rparr>"

definition sgd_container :: container where
  "sgd_container =
     example_container
       \<lparr>supercompressionScheme := 1,
        globalData := Some
          \<lparr>endpointCount = 1, selectorCount = 2, endpointsData = [], selectorsData = [],
           tablesData = [], extendedData = [],
           imageDescs =
             [\<lparr>imageFlags = 0, rgbSliceByteOffset = 0, rgbSliceByteLength = 3,
               alphaSliceByteOffset = 3, alphaSliceByteLength = 1\<rparr>]\<rparr>\<rparr>"

section \<open>Lemmas\<close>

subsection \<open>Bytes and padding\<close>

lemma length_u8 [simp]: "length (u8 v) = 1" by (simp add: u8_def)
lemma length_u16le [simp]: "length (u16le v) = 2" by (simp add: u16le_def)
lemma length_u32le [simp]: "length (u32le v) = 4" by (simp add: u32le_def)
lemma length_u64le [simp]: "length (u64le v) = 8" by (simp add: u64le_def)

lemma length_setBytes:
  "off + length bs \<le> length buf \<Longrightarrow> length (setBytes buf off bs) = length buf"
  by (simp add: setBytes_def)

lemma unat_byte_div:
  "unat (word_of_int (int n div int d) :: byte) = n div d mod 256"
proof -
  have "int n div int d = int (n div d)" by (simp add: zdiv_int)
  then show ?thesis by (simp add: unat_of_nat)
qed

lemma unat_byte: "unat (word_of_int (int n) :: byte) = n mod 256"
  by (simp add: unat_of_nat)

lemma mod_split: "(x::nat) mod (a * m) = x mod a + a * (x div a mod m)"
  by (simp add: mod_mult2_eq)

lemma le_nat_u16le: "le_nat (u16le (int n)) = n mod 2 ^ 16"
  using mod_split [of n 256 256] unat_byte_div [of n 256]
  by (simp add: u16le_def unat_of_nat)

lemma le_nat_u32le: "le_nat (u32le (int n)) = n mod 2 ^ 32"
proof -
  have d2: "n div 256 div 256 = n div 65536"
    using div_mult2_eq [of n 256 256] by simp
  have d3: "n div 65536 div 256 = n div 16777216"
    using div_mult2_eq [of n 65536 256] by simp
  show ?thesis
    using mod_split [of n 256 16777216] mod_split [of "n div 256" 256 65536]
      mod_split [of "n div 65536" 256 256]
      unat_byte_div [of n 256] unat_byte_div [of n 65536] unat_byte_div [of n 16777216]
    by (simp add: u32le_def unat_of_nat d2 d3)
qed

lemma le_nat_append: "le_nat (xs @ ys) = le_nat xs + 256 ^ length xs * le_nat ys"
  by (induction xs) (simp_all add: algebra_simps)

lemma le_nat_u64le: "le_nat (u64le (int n)) = n mod 2 ^ 64"
proof -
  have "int n div 4294967296 = int (n div 4294967296)" by (simp add: zdiv_int)
  then have "le_nat (u32le (int n div 4294967296)) = (n div 4294967296) mod 2 ^ 32"
    using le_nat_u32le [of "n div 4294967296"] by simp
  then show ?thesis
    using mod_split [of n 4294967296 4294967296]
    by (simp add: u64le_def le_nat_append le_nat_u32le)
qed

lemma getPadding_aligned: "0 < n \<Longrightarrow> (v + getPadding v n) mod n = 0"
proof -
  assume n: "0 < n"
  show ?thesis
  proof (cases "v mod n = 0")
    case True
    then show ?thesis by (simp add: getPadding_def)
  next
    case False
    then have "v mod n < n" "0 < v mod n" using n by simp_all
    then have "getPadding v n = n - v mod n" by (simp add: getPadding_def)
    moreover have "(v + (n - v mod n)) mod n = (v mod n + (n - v mod n)) mod n"
      by (simp add: mod_add_left_eq)
    ultimately show ?thesis using \<open>v mod n < n\<close> by simp
  qed
qed

lemma getPadding_less: "0 < n \<Longrightarrow> getPadding v n < n"
  by (simp add: getPadding_def)

lemma getPadding_zero: "0 < n \<Longrightarrow> v mod n = 0 \<Longrightarrow> getPadding v n = 0"
  by (simp add: getPadding_def)

subsection \<open>Sorting the entries\<close>

lemma set_sort_insert: "set (sort_insert cmp x xs) = insert x (set xs)"
  by (induction xs) auto

lemma set_array_sort: "set (array_sort cmp xs) = set xs"
  by (induction xs) (simp_all add: array_sort_def set_sort_insert)

lemma length_sort_insert: "length (sort_insert cmp x xs) = Suc (length xs)"
  by (induction xs) auto

lemma length_array_sort: "length (array_sort cmp xs) = length xs"
  by (induction xs) (simp_all add: array_sort_def length_sort_insert)

lemma sorted_sort_insert:
  "sorted_wrt key_less xs \<Longrightarrow> fst x \<notin> fst ` set xs \<Longrightarrow>
   sorted_wrt key_less (sort_insert compareFn x xs)"
proof (induction xs)
  case Nil
  then show ?case by simp
next
  case (Cons y ys)
  show ?case
  proof (cases "fst x > fst y")
    case True
    with Cons show ?thesis
      by (auto simp: compareFn_def set_sort_insert)
  next
    case False
    with Cons.prems have "fst x < fst y" by auto
    with Cons.prems False show ?thesis
      by (auto simp: compareFn_def)
  qed
qed

lemma sorted_array_sort:
  "distinct (map fst xs) \<Longrightarrow> sorted_wrt key_less (array_sort compareFn xs)"
proof (induction xs)
  case Nil
  then show ?case by (simp add: array_sort_def)
next
  case (Cons x xs)
  then have "sorted_wrt key_less (array_sort compareFn xs)" by simp
  moreover have "fst x \<notin> fst ` set (array_sort compareFn xs)"
    using Cons.prems by (simp add: set_array_sort)
  ultimately show ?case
    using sorted_sort_insert [of "array_sort compareFn xs" x] by (simp add: array_sort_def)
qed

lemma key_sorted_unique:
  "sorted_wrt key_less xs \<Longrightarrow> sorted_wrt key_less ys \<Longrightarrow> set xs = set ys \<Longrightarrow> xs = ys"
proof (induction xs arbitrary: ys)
  case Nil
  then show ?case by simp
next
  case (Cons x xs)
  then obtain y ys' where ys: "ys = y # ys'" by (cases ys) auto
  have xy: "x = y"
  proof (rule ccontr)
    assume ne: "x \<noteq> y"
    have "x \<in> set (y # ys')" using Cons.prems ys by auto
    with ne have "fst y < fst x" using Cons.prems(2) ys by auto
    moreover have "y \<in> set (x # xs)" using Cons.prems ys by auto
    with ne have "fst x < fst y" using Cons.prems(1) by auto
    ultimately show False by simp
  qed
  have "x \<notin> set xs" using Cons.prems(1) by auto
  moreover have "y \<notin> set ys'" using Cons.prems(2) ys by auto
  ultimately have "set xs = set ys'" using Cons.prems(3) ys xy by auto
  with Cons ys xy show ?case by auto
qed

subsection \<open>Object spread\<close>

lemma set_obj_set:
  "distinct (map fst ps) \<Longrightarrow> set (obj_set ps k v) = insert (k, v) {p \<in> set ps. fst p \<noteq> k}"
  by (induction ps) (force split: if_splits)+

lemma keys_obj_set: "fst ` set (obj_set ps k v) = insert k (fst ` set ps)"
  by (induction ps) (force split: if_splits)+

lemma distinct_obj_set: "distinct (map fst ps) \<Longrightarrow> distinct (map fst (obj_set ps k v))"
  by (induction ps) (auto simp: keys_obj_set)

subsection \<open>Writes through a \<open>DataView\<close>\<close>

lemma setBytes_append:
  assumes "off2 = off + length a" and "off2 + length b \<le> length buf"
  shows "setBytes (setBytes buf off a) off2 b = setBytes buf off (a @ b)"
proof -
  have "off \<le> length buf" using assms by simp
  then show ?thesis using assms by (simp add: setBytes_def min_absorb2 ac_simps)
qed

lemma setBytes_all: "length bs = length buf \<Longrightarrow> setBytes buf 0 bs = bs"
  by (simp add: setBytes_def)

lemma take_setBytes:
  assumes "off + length bs \<le> length buf" and "n = off + length bs"
  shows "take n (setBytes buf off bs) = take off buf @ bs"
proof -
  have "off \<le> length buf" using assms by simp
  then show ?thesis using assms by (simp add: setBytes_def min_absorb2)
qed

lemma length_setUint8 [simp]:
  "off + 1 \<le> length buf \<Longrightarrow> length (setUint8 buf off v) = length buf"
  by (simp add: setUint8_def length_setBytes)

lemma length_setUint16 [simp]:
  "off + 2 \<le> length buf \<Longrightarrow> length (setUint16 buf off v) = length buf"
  by (simp add: setUint16_def length_setBytes)

lemma length_setUint32 [simp]:
  "off + 4 \<le> length buf \<Longrightarrow> length (setUint32 buf off v) = length buf"
  by (simp add: setUint32_def length_setBytes)

lemma length_setInt32 [simp]:
  "off + 4 \<le> length buf \<Longrightarrow> length (setInt32 buf off v) = length buf"
  by (simp add: setInt32_def length_setBytes)

lemma length_ArrayBuffer [simp]: "length (ArrayBuffer n) = n"
  by (simp add: ArrayBuffer_def)

subsection \<open>DFD length\<close>

lemma length_dfd_samples:
  "28 + (i + length ss) * 16 \<le> length view \<Longrightarrow>
   length (dfd_samples K ss i view) = length view"
proof (induction ss arbitrary: i view)
  case Nil
  then show ?case by simp
next
  case (Cons s ss)
  from Cons.prems have le: "28 + i * 16 + 16 \<le> length view" by simp
  from Cons.prems have le': "28 + (Suc i + length ss) * 16 \<le> length view" by simp
  show ?case
    using le le' by (simp add: Let_def Cons.IH)
qed

lemma length_dfd_head: "length (dfd_head dfd) = 28 + length (samples dfd) * 16"
  by (simp add: dfd_head_def Let_def)

lemma length_dfdBuffer: "length (dfdBuffer K dfd tbd) = 28 + length (samples dfd) * 16"
  by (simp add: dfdBuffer_def Let_def length_dfd_samples length_dfd_head)

subsection \<open>Header layout\<close>

lemma headerBuffer_layout:
  "headerBuffer c dfdOff dfdLen kvdOff kvdLen sgdOff sgdLen =
   header_fields c dfdOff dfdLen kvdOff kvdLen sgdOff sgdLen"
  by (simp add: headerBuffer_def header_fields_def Let_def setUint32_def setBigUint64_def
      setBytes_append setBytes_all HEADER_BYTE_LENGTH_def)

lemma length_header_fields [simp]:
  "length (header_fields c dfdOff dfdLen kvdOff kvdLen sgdOff sgdLen) = 68"
  by (simp add: header_fields_def)

subsection \<open>Level index layout\<close>

lemma length_levelIndex_entry [simp]: "length (levelIndex_entry offs i l) = 24"
  by (simp add: levelIndex_entry_def)

lemma length_levelIndex_table [simp]: "length (levelIndex_table offs i ls) = 24 * length ls"
  by (induction ls arbitrary: i) simp_all

lemma levelIndex_entries_layout:
  "length view = 24 * (i + length rest) \<Longrightarrow>
   levelIndex_entries rest offs i view = take (24 * i) view @ levelIndex_table offs i rest"
proof (induction rest arbitrary: i view)
  case Nil
  then show ?case by simp
next
  case (Cons l rest)
  let ?view' = "setBytes view (i * 24) (levelIndex_entry offs i l)"
  have step: "setBigUint64
         (setBigUint64
           (setBigUint64 view (i * 24 + 0) (int (offs ! i)))
           (i * 24 + 8) (int (length (levelData l))))
         (i * 24 + 16) (int (uncompressedByteLength l)) = ?view'"
    using Cons.prems
    by (simp add: setBigUint64_def setBytes_append levelIndex_entry_def)
  have len: "length ?view' = 24 * (Suc i + length rest)"
    using Cons.prems by (simp add: length_setBytes)
  have tk: "take (24 * Suc i) ?view' = take (24 * i) view @ levelIndex_entry offs i l"
    using Cons.prems by (simp add: take_setBytes mult.commute)
  have "levelIndex_entries (l # rest) offs i view = levelIndex_entries rest offs (Suc i) ?view'"
    by (simp only: levelIndex_entries.simps step Suc_eq_plus1)
  also have "\<dots> = take (24 * Suc i) ?view' @ levelIndex_table offs (Suc i) rest"
    by (rule Cons.IH [OF len])
  also have "\<dots> = take (24 * i) view @ levelIndex_table offs i (l # rest)"
    by (simp add: tk del: mult_Suc_right)
  finally show ?case .
qed

lemma levelIndex_layout: "levelIndex lvls offs = levelIndex_table offs 0 lvls"
  by (simp add: levelIndex_def levelIndex_entries_layout)

lemma levelIndex_table_nth:
  "j < length ls \<Longrightarrow>
   take 24 (drop (24 * j) (levelIndex_table offs i ls)) = levelIndex_entry offs (i + j) (ls ! j)"
proof (induction ls arbitrary: i j)
  case Nil
  then show ?case by simp
next
  case (Cons l ls)
  show ?case
  proof (cases j)
    case 0
    then show ?thesis by simp
  next
    case (Suc j')
    with Cons.prems have "j' < length ls" by simp
    from Cons.IH [OF this, of "i + 1"] Suc show ?thesis by simp
  qed
qed

subsection \<open>SGD layout\<close>

lemma length_imageDesc_record [simp]: "length (imageDesc_record d) = 20"
  by (simp add: imageDesc_record_def)

lemma length_sgd_header [simp]: "length (sgd_header g) = 20"
  by (simp add: sgd_header_def)

lemma sgd_imageDescs_layout:
  "length view = 20 + 20 * (i + length rest) \<Longrightarrow>
   sgd_imageDescs rest i view =
   take (20 + 20 * i) view @ concat (map imageDesc_record rest)"
proof (induction rest arbitrary: i view)
  case Nil
  then show ?case by simp
next
  case (Cons d rest)
  let ?view' = "setBytes view (20 + 20 * i) (imageDesc_record d)"
  have step: "setUint32
         (setUint32
           (setUint32
             (setUint32
               (setUint32 view (20 + i * 5 * 4 + 0) (int (imageFlags d)))
               (20 + i * 5 * 4 + 4) (int (rgbSliceByteOffset d)))
             (20 + i * 5 * 4 + 8) (int (rgbSliceByteLength d)))
           (20 + i * 5 * 4 + 12) (int (alphaSliceByteOffset d)))
         (20 + i * 5 * 4 + 16) (int (alphaSliceByteLength d)) = ?view'"
    using Cons.prems
    by (simp add: setUint32_def setBytes_append imageDesc_record_def)
  have len: "length ?view' = 20 + 20 * (Suc i + length rest)"
    using Cons.prems by (simp add: length_setBytes)
  have tk: "take (20 + 20 * Suc i) ?view' = take (20 + 20 * i) view @ imageDesc_record d"
    using Cons.prems by (simp add: take_setBytes mult.commute)
  have "sgd_imageDescs (d # rest) i view = sgd_imageDescs rest (Suc i) ?view'"
    by (simp only: sgd_imageDescs.simps step Suc_eq_plus1)
  also have "\<dots> = take (20 + 20 * Suc i) ?view' @ concat (map imageDesc_record rest)"
    by (rule Cons.IH [OF len])
  also have "\<dots> = take (20 + 20 * i) view @ concat (map imageDesc_record (d # rest))"
    by (simp add: tk del: mult_Suc_right)
  finally show ?case .
qed

lemma sgdHeaderBuffer_layout:
  "sgdHeaderBuffer g = sgd_header g @ concat (map imageDesc_record (imageDescs g))"
proof -
  let ?n = "20 + length (imageDescs g) * 5 * 4"
  let ?view = "setBytes (ArrayBuffer ?n) 0 (sgd_header g)"
  have step: "setUint32
         (setUint32
           (setUint32
             (setUint32
               (setUint16
                 (setUint16 (ArrayBuffer ?n)
                   0 (int (endpointCount g)))
                 2 (int (selectorCount g)))
               4 (int (length (endpointsData g))))
             8 (int (length (selectorsData g))))
           12 (int (length (tablesData g))))
         16 (int (length (extendedData g))) = ?view"
    by (simp add: setUint32_def setUint16_def setBytes_append sgd_header_def)
  have len: "length ?view = 20 + 20 * (0 + length (imageDescs g))"
    by (simp add: length_setBytes)
  have tk: "take (20 + 20 * 0) ?view = sgd_header g"
    by (simp add: take_setBytes)
  show ?thesis
    unfolding sgdHeaderBuffer_def step
    using sgd_imageDescs_layout [OF len] tk by simp
qed

subsection \<open>Packing loop\<close>

lemma place_ge: "cur \<le> place A cur"
  by (simp add: place_def)

lemma place_aligned: "0 < A \<Longrightarrow> place A cur mod A = 0"
  using getPadding_aligned [of A cur] by (simp add: place_def)

lemma place_less: "0 < A \<Longrightarrow> place A cur < cur + A"
  using getPadding_less [of A cur] by (simp add: place_def)

lemma place_0 [simp]: "place 0 cur = cur"
  by (simp add: place_def)

lemma pack_level_cursor:
  "levelDataByteOffset (pack_level A lvls j s) =
   place A (levelDataByteOffset s) + length (levelData (lvls ! j))"
  by (simp add: pack_level_def place_def Let_def)

lemma pack_level_offsets:
  "levelDataByteOffsets (pack_level A lvls j s) =
   (levelDataByteOffsets s)[j := place A (levelDataByteOffset s) mod 2 ^ 32]"
  by (simp add: pack_level_def place_def Let_def)

lemma pack_level_bytes:
  "concat (levelDataArr (pack_level A lvls j s)) =
   concat (levelDataArr s) @
   replicate (place A (levelDataByteOffset s) - levelDataByteOffset s) 0 @ levelData (lvls ! j)"
  by (simp add: pack_level_def place_def Let_def ArrayBuffer_def)

lemma pack_levels_bytes:
  "concat (levelDataArr (pack_levels A lvls k s)) =
   concat (levelDataArr s) @ level_bytes A lvls k (levelDataByteOffset s)"
  by (induction k arbitrary: s) (simp_all add: pack_level_bytes pack_level_cursor)

lemma pack_levels_length:
  "length (levelDataByteOffsets (pack_levels A lvls k s)) = length (levelDataByteOffsets s)"
  by (induction k arbitrary: s) (simp_all add: pack_level_offsets)

lemma pack_levels_untouched:
  "k \<le> i \<Longrightarrow> levelDataByteOffsets (pack_levels A lvls k s) ! i = levelDataByteOffsets s ! i"
  by (induction k arbitrary: s) (simp_all add: pack_level_offsets)

lemma pack_levels_offsets:
  "i < k \<Longrightarrow> k \<le> length (levelDataByteOffsets s) \<Longrightarrow>
   levelDataByteOffsets (pack_levels A lvls k s) ! i =
   level_pos A lvls k (levelDataByteOffset s) i mod 2 ^ 32"
proof (induction k arbitrary: s)
  case 0
  then show ?case by simp
next
  case (Suc j)
  show ?case
  proof (cases "i = j")
    case True
    then show ?thesis
      using Suc.prems by (simp add: pack_levels_untouched pack_level_offsets)
  next
    case False
    with Suc.prems have "i < j" by simp
    moreover have "j \<le> length (levelDataByteOffsets (pack_level A lvls j s))"
      using Suc.prems by (simp add: pack_level_offsets)
    ultimately show ?thesis
      using Suc.IH [of "pack_level A lvls j s"] False by (simp add: pack_level_cursor)
  qed
qed

lemma level_pos_ge: "cur \<le> level_pos A lvls k cur i"
proof (induction k arbitrary: cur)
  case 0
  then show ?case by simp
next
  case (Suc j)
  have "cur \<le> place A cur + length (levelData (lvls ! j))"
    using place_ge [of cur A] by simp
  also have "\<dots> \<le> level_pos A lvls j (place A cur + length (levelData (lvls ! j))) i"
    by (rule Suc.IH)
  finally show ?case using place_ge [of cur A] by simp
qed

lemma level_bytes_at:
  "i < k \<Longrightarrow>
   take (length (levelData (lvls ! i)))
     (drop (level_pos A lvls k cur i - cur) (level_bytes A lvls k cur)) = levelData (lvls ! i)"
proof (induction k arbitrary: cur)
  case 0
  then show ?case by simp
next
  case (Suc j)
  let ?p = "place A cur"
  let ?next = "?p + length (levelData (lvls ! j))"
  show ?case
  proof (cases "i = j")
    case True
    then show ?thesis by simp
  next
    case False
    with Suc.prems have ij: "i < j" by simp
    have ge: "?next \<le> level_pos A lvls j ?next i" by (rule level_pos_ge)
    have pc: "cur \<le> ?p" by (rule place_ge)
    have split: "level_pos A lvls j ?next i - cur =
        (?p - cur) + length (levelData (lvls ! j)) + (level_pos A lvls j ?next i - ?next)"
      using ge pc by simp
    show ?thesis
      using False Suc.IH [OF ij, of ?next] by (simp add: split)
  qed
qed

lemma level_pos_aligned: "0 < A \<Longrightarrow> i < k \<Longrightarrow> level_pos A lvls k cur i mod A = 0"
  by (induction k arbitrary: cur) (simp_all add: place_aligned)

lemma level_pos_order:
  "i < j \<Longrightarrow> j < k \<Longrightarrow>
   level_pos A lvls k cur j + length (levelData (lvls ! j)) \<le> level_pos A lvls k cur i"
proof (induction k arbitrary: cur)
  case 0
  then show ?case by simp
next
  case (Suc m)
  show ?case
  proof (cases "j = m")
    case True
    then show ?thesis using Suc.prems level_pos_ge by simp
  next
    case False
    with Suc.prems have "j < m" by simp
    with Suc.IH [OF Suc.prems(1)] False Suc.prems show ?thesis by simp
  qed
qed

lemma level_bytes_unpadded:
  "k \<le> length lvls \<Longrightarrow> level_bytes 0 lvls k cur = concat (map levelData (rev (take k lvls)))"
  by (induction k arbitrary: cur) (simp_all add: take_Suc_conv_app_nth)

lemma level_pos_unpadded:
  "i < k \<Longrightarrow> k \<le> length lvls \<Longrightarrow>
   level_pos 0 lvls k cur i = cur + length (concat (map levelData (drop (Suc i) (take k lvls))))"
proof (induction k arbitrary: cur)
  case 0
  then show ?case by simp
next
  case (Suc j)
  show ?case
  proof (cases "i = j")
    case True
    then show ?thesis using Suc.prems by simp
  next
    case False
    with Suc.prems have "i < j" by simp
    with Suc.IH [of "cur + length (levelData (lvls ! j))"] Suc.prems False show ?thesis
      by (simp add: take_Suc_conv_app_nth)
  qed
qed

lemma write_container_Inr:
  assumes "passes_checks K c"
  shows "write_container K c options = Inr (file_image K c options)"
proof -
  from assms obtain tbd where
    len: "length (dataFormatDescriptor c) = 1" and
    ty: "descriptorType (dataFormatDescriptor c ! 0) = KHR_DF_KHR_DESCRIPTORTYPE_BASICFORMAT K" and
    tbd: "texelBlockDimension (dataFormatDescriptor c ! 0) = Array tbd"
    by (auto simp: passes_checks_def is_Array_def split: texel_dim.splits)
  have p: "concat (levelDataArr (packed A lvls start)) = level_bytes A lvls (length lvls) start"
    for A lvls start
    by (simp add: packed_def pack_levels_bytes)
  show ?thesis
    unfolding write_container_def file_image_def
    by (simp add: len ty tbd Let_def headerBuffer_layout levelIndex_layout p dfd_section_def
        array_of_def kvd_section_def kvdByteOffset_def kvdByteEnd_def sgdOffset_def
        levelDataStart_def ArrayBuffer_def)
qed


subsection \<open>Where the sections are\<close>

lemma slice_mid: "s = length a \<Longrightarrow> e = length a + length b \<Longrightarrow> slice (a @ b @ c) s e = b"
  by (simp add: slice_def)

lemma slice_skip: "length a \<le> s \<Longrightarrow> slice (a @ b) s e = slice b (s - length a) (e - length a)"
  by (simp add: slice_def)

lemma slice_within: "e \<le> length a \<Longrightarrow> slice (a @ b) s e = slice a s e"
  by (simp add: slice_def)

lemma length_dfd_section: "length (dfd_section K c) = 28 + length (samples (dataFormatDescriptor c ! 0)) * 16"
  by (simp add: dfd_section_def length_dfdBuffer)

lemma sgdByteOffset_zero: "sgdByteOffset 0 a b = 0"
  by (simp add: sgdByteOffset_def)

lemma sgdByteOffset_pos:
  "0 < n \<Longrightarrow> a + b \<le> sgdByteOffset n a b \<and> sgdByteOffset n a b < a + b + 8 \<and>
     sgdByteOffset n a b mod 8 = 0"
  unfolding sgdByteOffset_def Let_def by (simp add: mod_simps) presburger

text \<open>The image split at the end of the key/value section and at the level data.\<close>

lemma file_image_split:
  "\<exists>pre. file_image K c options = pre @ dfd_section K c @ kvd_section K c options @
      replicate (sgdOffset K c options - kvdByteEnd K c options) 0 @ sgdBuffer c @
      level_bytes (levelAlign_of K c) (levels c) (length (levels c)) (levelDataStart K c options)
    \<and> length pre = dfdByteOffset K c
    \<and> pre = map of_nat (KTX2_ID K) @
     header_fields c (dfdByteOffset K c) (length (dfd_section K c)) (kvdByteOffset K c)
       (length (kvd_section K c options)) (sgdOffset K c options) (length (sgdBuffer c)) @
     levelIndex_table
       (levelDataByteOffsets
         (packed (levelAlign_of K c) (levels c) (levelDataStart K c options))) 0 (levels c)"
  by (simp add: file_image_def dfdByteOffset_def HEADER_BYTE_LENGTH_def)

lemma sgd_gap:
  "kvdByteEnd K c options + (sgdOffset K c options - kvdByteEnd K c options) + length (sgdBuffer c)
   = levelDataStart K c options"
proof (cases "length (sgdBuffer c) = 0")
  case True
  then show ?thesis
    by (simp add: levelDataStart_def sgdOffset_def sgdByteOffset_zero)
next
  case False
  then have "kvdByteEnd K c options \<le> sgdOffset K c options"
    using sgdByteOffset_pos [of "length (sgdBuffer c)" "kvdByteOffset K c"
        "length (kvd_section K c options)"]
    by (simp add: sgdOffset_def kvdByteEnd_def)
  then show ?thesis
    by (auto simp: levelDataStart_def)
qed

lemma length_file_prefix:
  "length (map of_nat (KTX2_ID K) @
     header_fields c a b d e f g @ levelIndex_table offs 0 (levels c)) = dfdByteOffset K c"
  by (simp add: dfdByteOffset_def HEADER_BYTE_LENGTH_def)

lemma file_image_dfd:
  "slice (file_image K c options) (dfdByteOffset K c) (kvdByteOffset K c) = dfd_section K c"
  by (simp add: file_image_def slice_def dfdByteOffset_def HEADER_BYTE_LENGTH_def kvdByteOffset_def)

lemma file_image_kvd:
  "slice (file_image K c options) (kvdByteOffset K c) (kvdByteEnd K c options) =
   kvd_section K c options"
  by (simp add: file_image_def slice_def dfdByteOffset_def HEADER_BYTE_LENGTH_def kvdByteOffset_def
      kvdByteEnd_def)

lemma file_image_levels:
  "drop (levelDataStart K c options) (file_image K c options) =
   level_bytes (levelAlign_of K c) (levels c) (length (levels c)) (levelDataStart K c options)"
proof -
  obtain pre where
    img: "file_image K c options = pre @ dfd_section K c @ kvd_section K c options @
      replicate (sgdOffset K c options - kvdByteEnd K c options) 0 @ sgdBuffer c @
      level_bytes (levelAlign_of K c) (levels c) (length (levels c)) (levelDataStart K c options)"
    and pre: "length pre = dfdByteOffset K c"
    using file_image_split [of K c options] by blast
  let ?front = "pre @ dfd_section K c @ kvd_section K c options @
      replicate (sgdOffset K c options - kvdByteEnd K c options) 0 @ sgdBuffer c"
  have "length ?front = levelDataStart K c options"
    using sgd_gap [of K c options] pre by (simp add: kvdByteEnd_def kvdByteOffset_def)
  moreover have "file_image K c options = ?front @
      level_bytes (levelAlign_of K c) (levels c) (length (levels c)) (levelDataStart K c options)"
    using img by simp
  ultimately show ?thesis
    by (metis append_eq_conv_conj)
qed

lemma file_image_sgd:
  assumes "0 < length (sgdBuffer c)"
  shows "slice (file_image K c options) (sgdOffset K c options)
           (sgdOffset K c options + length (sgdBuffer c)) = sgdBuffer c"
    and "slice (file_image K c options) (kvdByteEnd K c options) (sgdOffset K c options) =
           replicate (sgdOffset K c options - kvdByteEnd K c options) 0"
proof -
  obtain pre where
    img: "file_image K c options = pre @ dfd_section K c @ kvd_section K c options @
      replicate (sgdOffset K c options - kvdByteEnd K c options) 0 @ sgdBuffer c @
      level_bytes (levelAlign_of K c) (levels c) (length (levels c)) (levelDataStart K c options)"
    and pre: "length pre = dfdByteOffset K c"
    using file_image_split [of K c options] by blast
  have le: "kvdByteEnd K c options \<le> sgdOffset K c options"
    using assms sgdByteOffset_pos [of "length (sgdBuffer c)" "kvdByteOffset K c"
        "length (kvd_section K c options)"]
    by (simp add: sgdOffset_def kvdByteEnd_def)
  let ?a = "pre @ dfd_section K c @ kvd_section K c options"
  let ?pad = "replicate (sgdOffset K c options - kvdByteEnd K c options) (0::byte)"
  have la: "length ?a = kvdByteEnd K c options"
    using pre by (simp add: kvdByteEnd_def kvdByteOffset_def)
  have img2: "file_image K c options = ?a @ ?pad @ (sgdBuffer c @
      level_bytes (levelAlign_of K c) (levels c) (length (levels c)) (levelDataStart K c options))"
    using img by simp
  show "slice (file_image K c options) (kvdByteEnd K c options) (sgdOffset K c options) = ?pad"
    unfolding img2 using la le by (intro slice_mid) simp_all
  have img3: "file_image K c options = (?a @ ?pad) @ sgdBuffer c @
      level_bytes (levelAlign_of K c) (levels c) (length (levels c)) (levelDataStart K c options)"
    using img by simp
  show "slice (file_image K c options) (sgdOffset K c options)
           (sgdOffset K c options + length (sgdBuffer c)) = sgdBuffer c"
    unfolding img3 using la le by (intro slice_mid) simp_all
qed

lemma file_image_header:
  "slice (file_image K c options) (length (KTX2_ID K)) (length (KTX2_ID K) + 68) =
   header_fields c (dfdByteOffset K c) (length (dfd_section K c)) (kvdByteOffset K c)
       (length (kvd_section K c options)) (sgdOffset K c options) (length (sgdBuffer c))"
  unfolding file_image_def by (intro slice_mid) simp_all

lemma file_image_index:
  "slice (file_image K c options) (length (KTX2_ID K) + 68)
     (length (KTX2_ID K) + 68 + 24 * length (levels c)) =
   levelIndex_table
       (levelDataByteOffsets
         (packed (levelAlign_of K c) (levels c) (levelDataStart K c options))) 0 (levels c)"
proof -
  have "file_image K c options =
     (map of_nat (KTX2_ID K) @
     header_fields c (dfdByteOffset K c) (length (dfd_section K c)) (kvdByteOffset K c)
       (length (kvd_section K c options)) (sgdOffset K c options) (length (sgdBuffer c))) @
     levelIndex_table
       (levelDataByteOffsets
         (packed (levelAlign_of K c) (levels c) (levelDataStart K c options))) 0 (levels c) @
     (dfd_section K c @
     kvd_section K c options @
     replicate (sgdOffset K c options - kvdByteEnd K c options) 0 @
     sgdBuffer c @
     level_bytes (levelAlign_of K c) (levels c) (length (levels c)) (levelDataStart K c options))"
    by (simp add: file_image_def)
  then show ?thesis
    by (elim ssubst, intro slice_mid) simp_all
qed

text \<open>Reading inside a slice.\<close>

lemma slice_slice:
  assumes "e \<le> t - s"
  shows "slice (slice buf s t) b e = slice buf (s + b) (s + e)"
proof -
  have "min (e - b) (t - s - b) = e - b" using assms by simp
  then show ?thesis
    by (simp add: slice_def drop_take add.commute)
qed

lemma file_header_field32:
  assumes "off + 4 \<le> 68"
  shows "getUint32 (file_image K c options) (length (KTX2_ID K) + off) =
    getUint32 (header_fields c (dfdByteOffset K c) (length (dfd_section K c)) (kvdByteOffset K c)
       (length (kvd_section K c options)) (sgdOffset K c options) (length (sgdBuffer c))) off"
  unfolding getUint32_def
  using slice_slice [of "off + 4" "length (KTX2_ID K) + 68" "length (KTX2_ID K)"
      "file_image K c options" off] assms
  by (simp add: file_image_header add.assoc)

lemma file_header_field64:
  assumes "off + 8 \<le> 68"
  shows "getBigUint64 (file_image K c options) (length (KTX2_ID K) + off) =
    getBigUint64 (header_fields c (dfdByteOffset K c) (length (dfd_section K c)) (kvdByteOffset K c)
       (length (kvd_section K c options)) (sgdOffset K c options) (length (sgdBuffer c))) off"
  unfolding getBigUint64_def
  using slice_slice [of "off + 8" "length (KTX2_ID K) + 68" "length (KTX2_ID K)"
      "file_image K c options" off] assms
  by (simp add: file_image_header add.assoc)

lemma header_fields_read:
  fixes c dfdOff dfdLen kvdOff kvdLen sgdOff sgdLen
  defines "h \<equiv> header_fields c dfdOff dfdLen kvdOff kvdLen sgdOff sgdLen"
  shows "getUint32 h 28 = length (levels c) mod 2 ^ 32"
    and "getUint32 h 36 = dfdOff mod 2 ^ 32"
    and "getUint32 h 40 = dfdLen mod 2 ^ 32"
    and "getUint32 h 44 = kvdOff mod 2 ^ 32"
    and "getUint32 h 48 = kvdLen mod 2 ^ 32"
    and "getBigUint64 h 52 = (if sgdLen > 0 then sgdOff else 0) mod 2 ^ 64"
    and "getBigUint64 h 60 = sgdLen mod 2 ^ 64"
  unfolding h_def header_fields_def getUint32_def getBigUint64_def slice_def
  by (simp_all add: le_nat_u32le le_nat_u64le)

lemma keepWriter_of_merge:
  "keepWriter_of (merge_options DEFAULT_OPTIONS options) \<longleftrightarrow> keepWriter options = Some True"
  by (auto simp: keepWriter_of_def merge_options_def DEFAULT_OPTIONS_def split: option.splits)

lemma kvd_section_entries:
  "kvd_section K c options =
   concat (map kv_entry (keyValueList K c (merge_options DEFAULT_OPTIONS options)))"
  by (simp add: kvd_section_def kvdBuffer_def)

lemma set_keyValueList:
  "set (keyValueList K c opts) = set (merged_keyValue K c opts)"
  by (simp add: keyValueList_def set_array_sort)

lemma distinct_merged:
  "distinct (map fst (keyValue c)) \<Longrightarrow> distinct (map fst (merged_keyValue K c opts))"
  by (simp add: merged_keyValue_def distinct_obj_set)

lemma sorted_keyValueList:
  "distinct (map fst (keyValue c)) \<Longrightarrow> sorted_wrt key_less (keyValueList K c opts)"
  unfolding keyValueList_def by (intro sorted_array_sort distinct_merged)

lemma passes_example [simp]: "passes_checks example_externals example_container"
  by (simp add: passes_checks_def example_externals_def example_container_def example_dfd_def
      is_Array_def)

subsection \<open>ASCII keys\<close>

lemma ascii_not_surrogate: "u < 0x80 \<Longrightarrow> \<not> is_high u \<and> \<not> is_low u"
  by (simp add: is_high_def is_low_def word_less_nat_alt word_le_nat_alt)

lemma code_points_ascii: "\<forall>u \<in> set s. u < 0x80 \<Longrightarrow> code_points s = map unat s"
  by (induction s rule: code_points.induct) (simp_all add: scalar_of_def ascii_not_surrogate)

lemma utf8_ascii: "u < (0x80 :: 16 word) \<Longrightarrow> utf8 (unat u) = [ucast u]"
  by (simp add: utf8_def word_less_nat_alt)

lemma encodeText_ascii:
  "\<forall>u \<in> set s. u < 0x80 \<Longrightarrow> encodeText s = map ucast s"
  by (induction s) (simp_all add: encodeText_def code_points_ascii utf8_ascii)

lemma ucast_ascii_less:
  fixes a b :: "16 word"
  assumes "a < 0x80" and "b < 0x80"
  shows "(ucast a :: byte) < ucast b \<longleftrightarrow> a < b"
    and "(ucast a :: byte) = ucast b \<longleftrightarrow> a = b"
proof -
  have ua: "unat (ucast a :: byte) = unat a" and ub: "unat (ucast b :: byte) = unat b"
    using assms by (simp_all add: unsigned_ucast_eq take_bit_nat_eq_self word_less_nat_alt)
  show "(ucast a :: byte) < ucast b \<longleftrightarrow> a < b"
    by (simp add: word_less_nat_alt ua ub)
  show "(ucast a :: byte) = ucast b \<longleftrightarrow> a = b"
    by (metis ua ub unsigned_word_eqI)
qed

lemma ascii_less_mono:
  fixes s t :: jsstring
  shows "\<forall>u \<in> set s. u < 0x80 \<Longrightarrow> \<forall>u \<in> set t. u < 0x80 \<Longrightarrow> s < t \<Longrightarrow>
    (map ucast s :: bytes) < map ucast t"
proof (induction s arbitrary: t)
  case Nil
  then show ?case by (cases t) simp_all
next
  case (Cons a s)
  then obtain b t' where t: "t = b # t'" by (cases t) auto
  with Cons.prems have ab: "a < 0x80" "b < 0x80" by simp_all
  show ?case
    using Cons.prems Cons.IH [of t'] t ucast_ascii_less [OF ab] by auto
qed

lemma encodeText_ascii_mono:
  "\<forall>u \<in> set s. u < 0x80 \<Longrightarrow> \<forall>u \<in> set t. u < 0x80 \<Longrightarrow> s < t \<Longrightarrow>
   encodeText s < encodeText t"
  by (simp add: encodeText_ascii ascii_less_mono)

subsection \<open>Order of enumeration\<close>

lemma keyValueList_cong:
  assumes "distinct (map fst (keyValue c))" and "distinct (map fst kv')"
    and "set kv' = set (keyValue c)"
  shows "keyValueList K (c\<lparr>keyValue := kv'\<rparr>) opts = keyValueList K c opts"
proof -
  let ?c' = "c\<lparr>keyValue := kv'\<rparr>"
  have d': "distinct (map fst (keyValue ?c'))" using assms by simp
  have "set (merged_keyValue K ?c' opts) = set (merged_keyValue K c opts)"
    using assms by (simp add: merged_keyValue_def set_obj_set)
  then have "set (keyValueList K ?c' opts) = set (keyValueList K c opts)"
    by (simp add: set_keyValueList)
  then show ?thesis
    using sorted_keyValueList [OF d', of K opts] sorted_keyValueList [OF assms(1), of K opts]
    by (intro key_sorted_unique)
qed

subsection \<open>Level index and payloads in the file\<close>

lemma packed_offsets:
  "i < length lvls \<Longrightarrow>
   levelDataByteOffsets (packed A lvls start) ! i = level_pos A lvls (length lvls) start i mod 2 ^ 32"
  by (simp add: packed_def pack_levels_offsets)

lemma file_index_entry:
  assumes "i < length (levels c)"
  shows "slice (file_image K c options) (length (KTX2_ID K) + 68 + 24 * i)
           (length (KTX2_ID K) + 68 + 24 * i + 24) =
         levelIndex_entry
           (levelDataByteOffsets
             (packed (levelAlign_of K c) (levels c) (levelDataStart K c options))) i
           (levels c ! i)"
proof -
  let ?offs = "levelDataByteOffsets
             (packed (levelAlign_of K c) (levels c) (levelDataStart K c options))"
  let ?L = "length (KTX2_ID K) + 68"
  have le: "24 * i + 24 \<le> ?L + 24 * length (levels c) - ?L"
    using assms by simp
  have "slice (file_image K c options) (?L + 24 * i) (?L + (24 * i + 24)) =
      slice (levelIndex_table ?offs 0 (levels c)) (24 * i) (24 * i + 24)"
    using slice_slice [OF le, of "file_image K c options" "24 * i"]
    by (simp add: file_image_index)
  also have "\<dots> = levelIndex_entry ?offs i (levels c ! i)"
    using levelIndex_table_nth [OF assms, of ?offs 0] by (simp add: slice_def)
  finally show ?thesis by (simp add: add.assoc)
qed

lemma slice_prefix: "e \<le> t \<Longrightarrow> slice buf s e = take (e - s) (slice buf s t)"
  by (simp add: slice_def min_def)

lemma file_level_fields:
  assumes "i < length (levels c)"
  shows "getBigUint64 (file_image K c options) (length (KTX2_ID K) + 68 + 24 * i) =
           levelOffset K c options i mod 2 ^ 32 \<and>
         getBigUint64 (file_image K c options) (length (KTX2_ID K) + 68 + 24 * i + 8) =
           length (levelData (levels c ! i)) mod 2 ^ 64 \<and>
         getBigUint64 (file_image K c options) (length (KTX2_ID K) + 68 + 24 * i + 16) =
           uncompressedByteLength (levels c ! i) mod 2 ^ 64"
proof -
  let ?f = "file_image K c options"
  let ?o = "length (KTX2_ID K) + 68 + 24 * i"
  let ?offs = "levelDataByteOffsets
             (packed (levelAlign_of K c) (levels c) (levelDataStart K c options))"
  let ?e = "levelIndex_entry ?offs i (levels c ! i)"
  have e: "slice ?f ?o (?o + 24) = ?e"
    by (rule file_index_entry [OF assms])
  have r: "getBigUint64 ?f (?o + b) = le_nat (slice ?e b (b + 8))" if "b + 8 \<le> 24" for b
  proof -
    have "slice ?e b (b + 8) = slice (slice ?f ?o (?o + 24)) b (b + 8)"
      by (simp only: e)
    also have "\<dots> = slice ?f (?o + b) (?o + (b + 8))"
      by (rule slice_slice) (use that in simp)
    finally show ?thesis
      by (simp only: getBigUint64_def add.assoc)
  qed
  have o: "?offs ! i = levelOffset K c options i mod 2 ^ 32"
    using assms by (simp add: packed_offsets levelOffset_def)
  have m: "levelOffset K c options i mod 2 ^ 32 mod 2 ^ 64 = levelOffset K c options i mod 2 ^ 32"
    by (simp add: mod_mod_cancel)
  have "getBigUint64 ?f (?o + 0) = levelOffset K c options i mod 2 ^ 32"
    by (subst r) (simp_all add: levelIndex_entry_def slice_def le_nat_u64le o m)
  moreover have "getBigUint64 ?f (?o + 8) = length (levelData (levels c ! i)) mod 2 ^ 64"
    by (subst r) (simp_all add: levelIndex_entry_def slice_def le_nat_u64le)
  moreover have "getBigUint64 ?f (?o + 16) = uncompressedByteLength (levels c ! i) mod 2 ^ 64"
    by (subst r) (simp_all add: levelIndex_entry_def slice_def le_nat_u64le)
  ultimately show ?thesis by simp
qed

lemma file_level_payload:
  assumes "i < length (levels c)"
  shows "slice (file_image K c options) (levelOffset K c options i)
           (levelOffset K c options i + length (levelData (levels c ! i))) =
         levelData (levels c ! i)"
proof -
  let ?start = "levelDataStart K c options"
  let ?pos = "levelOffset K c options i"
  have ge: "?start \<le> ?pos"
    by (simp add: levelOffset_def level_pos_ge)
  have "drop ?pos (file_image K c options) = drop (?pos - ?start) (drop ?start (file_image K c options))"
    using ge by simp
  then show ?thesis
    using level_bytes_at [OF assms, of "levels c" "levelAlign_of K c" ?start]
    by (simp add: slice_def file_image_levels levelOffset_def)
qed

lemma level_slice_below_4GiB:
  assumes "passes_checks K c" and "i < length (levels c)"
    and "levelOffset K c options i < 2 ^ 32"
    and "length (levelData (levels c ! i)) < 2 ^ 64"
  shows "\<exists>out. write_container K c options = Inr out \<and>
    slice out (getBigUint64 out (length (KTX2_ID K) + 68 + 24 * i))
      (getBigUint64 out (length (KTX2_ID K) + 68 + 24 * i) +
       getBigUint64 out (length (KTX2_ID K) + 68 + 24 * i + 8)) =
    levelData (levels c ! i)"
  using assms file_level_fields [OF assms(2), of K options]
    file_level_payload [OF assms(2), of K options]
  by (simp add: write_container_Inr)

lemma levels_stored_last_first:
  assumes "i < j" and "j < length (levels c)"
  shows "levelOffset K c options j + length (levelData (levels c ! j)) \<le>
         levelOffset K c options i"
  using level_pos_order [OF assms] by (simp add: levelOffset_def)

lemma length_encodeText_ascii:
  "\<forall>u \<in> set s. u < 0x80 \<Longrightarrow> length (encodeText s) = length s"
  by (simp add: encodeText_ascii)

subsection \<open>The example with a level of 4 GiB\<close>

lemma passes_big: "passes_checks example_externals big_container"
  by (simp add: passes_checks_def example_externals_def big_container_def
      example_container_def example_dfd_def is_Array_def)

lemma example_kvd_length:
  assumes "keyValue c = keyValue example_container"
  shows "length (kvd_section example_externals c \<lparr>keepWriter = None\<rparr>) = 52"
proof -
  have kvl: "keyValueList example_externals c
     (merge_options DEFAULT_OPTIONS \<lparr>keepWriter = None\<rparr>) =
     [(KTXwriter, Text (KTX_WRITER example_externals)),
      (map of_char ''Orientation'', Text (map of_char ''S''))]"
    by (simp add: keyValueList_def merged_keyValue_def keepWriter_of_merge assms
        example_container_def KTXwriter_def array_sort_def compareFn_def)
  have a: "\<forall>u \<in> set KTXwriter. u < 0x80" by (simp add: KTXwriter_def)
  have b: "\<forall>u \<in> set (KTX_WRITER example_externals). u < 0x80"
    by (simp add: example_externals_def)
  have l1: "length (kv_entry (KTXwriter, Text (KTX_WRITER example_externals))) = 32"
    by (simp add: kv_entry_def Let_def length_encodeText_ascii a b NUL_def getPadding_def)
      (simp add: KTXwriter_def example_externals_def)
  have l2: "length (kv_entry (map of_char ''Orientation'', Text (map of_char ''S''))) = 20"
    by (simp add: kv_entry_def Let_def length_encodeText_ascii NUL_def getPadding_def)
  have two: "length (concat (map kv_entry [x, y])) = length (kv_entry x) + length (kv_entry y)"
    for x y
    by simp
  show ?thesis
    by (simp only: kvd_section_entries kvl two l1 l2)
qed

lemma big_start: "levelDataStart example_externals big_container \<lparr>keepWriter = None\<rparr> = 208"
proof -
  have "length (kvd_section example_externals big_container \<lparr>keepWriter = None\<rparr>) = 52"
    by (rule example_kvd_length) (simp add: big_container_def)
  then show ?thesis
    by (simp add: levelDataStart_def sgdOffset_def sgdByteOffset_def kvdByteEnd_def
        kvdByteOffset_def length_dfd_section dfdByteOffset_def HEADER_BYTE_LENGTH_def
        sgdBuffer_def ArrayBuffer_def)
      (simp add: big_container_def example_container_def example_externals_def example_dfd_def)
qed

lemma big_align: "levelAlign_of example_externals big_container = 4"
  by (simp add: levelAlign_of_def leastCommonMultiple_def example_externals_def
      big_container_def example_container_def example_dfd_def)

lemma big_offsets:
  "levelOffset example_externals big_container \<lparr>keepWriter = None\<rparr> (Suc 0) = 208"
  "levelOffset example_externals big_container \<lparr>keepWriter = None\<rparr> 0 = 4294967504"
  by (simp_all add: levelOffset_def big_start big_align)
    (simp_all add: big_container_def place_def)

subsection \<open>Global data, header values, record lengths\<close>

lemma sgdBuffer_Some:
  "globalData c = Some g \<Longrightarrow>
   sgdBuffer c =
     sgd_header g @ concat (map imageDesc_record (imageDescs g)) @
     endpointsData g @ selectorsData g @ tablesData g @ extendedData g"
  by (simp add: sgdBuffer_def sgdHeaderBuffer_layout)

lemma sgdBuffer_None: "globalData c = None \<Longrightarrow> sgdBuffer c = []"
  by (simp add: sgdBuffer_def ArrayBuffer_def)

lemma length_concat_records: "length (concat (map imageDesc_record ds)) = 20 * length ds"
  by (induction ds) simp_all

lemma length_sgdBuffer_Some:
  "globalData c = Some g \<Longrightarrow>
   length (sgdBuffer c) =
     20 + 20 * length (imageDescs g) + length (endpointsData g) + length (selectorsData g) +
     length (tablesData g) + length (extendedData g)"
  by (simp add: sgdBuffer_Some length_concat_records)

lemma file_header_values:
  fixes K c options
  defines "f \<equiv> file_image K c options" and "L \<equiv> length (KTX2_ID K)"
  shows "getUint32 f (L + 28) = length (levels c) mod 2 ^ 32 \<and>
    getUint32 f (L + 36) = dfdByteOffset K c mod 2 ^ 32 \<and>
    getUint32 f (L + 40) = length (dfd_section K c) mod 2 ^ 32 \<and>
    getUint32 f (L + 44) = kvdByteOffset K c mod 2 ^ 32 \<and>
    getUint32 f (L + 48) = length (kvd_section K c options) mod 2 ^ 32 \<and>
    getBigUint64 f (L + 52) =
      (if length (sgdBuffer c) > 0 then sgdOffset K c options else 0) mod 2 ^ 64 \<and>
    getBigUint64 f (L + 60) = length (sgdBuffer c) mod 2 ^ 64"
  unfolding f_def L_def
  using file_header_field32 [of 28 K c options] file_header_field32 [of 36 K c options]
    file_header_field32 [of 40 K c options] file_header_field32 [of 44 K c options]
    file_header_field32 [of 48 K c options] file_header_field64 [of 52 K c options]
    file_header_field64 [of 60 K c options]
  by (simp add: header_fields_read)

lemma kv_entry_length: "length (kv_entry kv) mod 4 = 0"
proof -
  have al: "(4 + (n + getPadding n 4)) mod 4 = 0" for n
    using getPadding_aligned [of 4 n] by (simp add: mod_simps)
  obtain n where "length (kv_entry kv) = 4 + (n + getPadding n 4)"
  proof (cases "snd kv")
    case (Text s)
    then have "length (kv_entry kv) =
        4 + (Suc (Suc (length (encodeText (fst kv)) + length (encodeText s))) +
             getPadding (Suc (Suc (length (encodeText (fst kv)) + length (encodeText s)))) 4)"
      by (simp add: kv_entry_def Let_def NUL_def)
    then show ?thesis by (rule that)
  next
    case (Raw r)
    then have "length (kv_entry kv) =
        4 + (Suc (length (encodeText (fst kv)) + length r) +
             getPadding (Suc (length (encodeText (fst kv)) + length r)) 4)"
      by (simp add: kv_entry_def Let_def NUL_def)
    then show ?thesis by (rule that)
  qed
  then show ?thesis by (simp only: al)
qed

lemma place_eq: "place A cur = cur + getPadding cur A"
  by (cases "A = 0") (simp_all add: place_def getPadding_def)

lemma passes_sgd: "passes_checks example_externals sgd_container"
  by (simp add: passes_checks_def example_externals_def sgd_container_def
      example_container_def example_dfd_def is_Array_def)

lemma sgd_container_global:
  "globalData sgd_container = Some
          \<lparr>endpointCount = 1, selectorCount = 2, endpointsData = [], selectorsData = [],
           tablesData = [], extendedData = [],
           imageDescs =
             [\<lparr>imageFlags = 0, rgbSliceByteOffset = 0, rgbSliceByteLength = 3,
               alphaSliceByteOffset = 3, alphaSliceByteLength = 1\<rparr>]\<rparr>"
  by (simp add: sgd_container_def)

lemma sgd_kvdByteEnd: "kvdByteEnd example_externals sgd_container \<lparr>keepWriter = None\<rparr> = 184"
proof -
  have "length (kvd_section example_externals sgd_container \<lparr>keepWriter = None\<rparr>) = 52"
    by (rule example_kvd_length) (simp add: sgd_container_def)
  then show ?thesis
    by (simp add: kvdByteEnd_def kvdByteOffset_def length_dfd_section dfdByteOffset_def
        HEADER_BYTE_LENGTH_def)
      (simp add: sgd_container_def example_container_def example_externals_def example_dfd_def)
qed

lemma example_kvdByteEnd:
  "kvdByteEnd example_externals example_container \<lparr>keepWriter = None\<rparr> = 184"
proof -
  have "length (kvd_section example_externals example_container \<lparr>keepWriter = None\<rparr>) = 52"
    by (rule example_kvd_length) simp
  then show ?thesis
    by (simp add: kvdByteEnd_def kvdByteOffset_def length_dfd_section dfdByteOffset_def
        HEADER_BYTE_LENGTH_def)
      (simp add: example_container_def example_externals_def example_dfd_def)
qed

lemma example_align: "levelAlign_of example_externals example_container = 4"
  by (simp add: levelAlign_of_def leastCommonMultiple_def example_externals_def
      example_container_def example_dfd_def)

lemma levelDataStart_None:
  "globalData c = None \<Longrightarrow> levelDataStart K c options = kvdByteEnd K c options"
  by (simp add: levelDataStart_def sgdOffset_def sgdBuffer_None sgdByteOffset_zero)

section \<open>Claims\<close>

text \<open>
  C1 (as amended). For a container that passes the checks, the key/value section of the
  output is the concatenation of the records of the sorted entry list. Unless
  \<open>keepWriter\<close> is true, that list holds the generated \<open>KTXwriter\<close> entry and the caller's
  entries under every other key: a caller-supplied \<open>KTXwriter\<close> value is replaced. With
  \<open>keepWriter\<close> true the list holds exactly the caller's entries.
\<close>

theorem writer_entry_generated:
  assumes "passes_checks K c" and "distinct (map fst (keyValue c))"
  shows "write_container K c options = Inr (file_image K c options) \<and>
    slice (file_image K c options) (kvdByteOffset K c) (kvdByteEnd K c options) =
      concat (map kv_entry (keyValueList K c (merge_options DEFAULT_OPTIONS options))) \<and>
    (keepWriter options \<noteq> Some True \<longrightarrow>
       set (keyValueList K c (merge_options DEFAULT_OPTIONS options)) =
         insert (KTXwriter, Text (KTX_WRITER K)) {p \<in> set (keyValue c). fst p \<noteq> KTXwriter}) \<and>
    (keepWriter options = Some True \<longrightarrow>
       set (keyValueList K c (merge_options DEFAULT_OPTIONS options)) = set (keyValue c))"
  using assms
  by (simp add: write_container_Inr file_image_kvd kvd_section_entries set_keyValueList
      merged_keyValue_def keepWriter_of_merge set_obj_set)

theorem writer_entry_generated_witness:
  "passes_checks example_externals writer_container \<and>
   distinct (map fst (keyValue writer_container)) \<and>
   set (keyValueList example_externals writer_container
          (merge_options DEFAULT_OPTIONS \<lparr>keepWriter = Some False\<rparr>)) =
     {(KTXwriter, Text (KTX_WRITER example_externals))} \<and>
   set (keyValueList example_externals writer_container
          (merge_options DEFAULT_OPTIONS \<lparr>keepWriter = Some True\<rparr>)) =
     {(KTXwriter, Text (map of_char ''mine''))}"
proof -
  have p: "passes_checks example_externals writer_container"
    by (simp add: passes_checks_def example_externals_def writer_container_def
        example_container_def example_dfd_def is_Array_def)
  have d: "distinct (map fst (keyValue writer_container))"
    by (simp add: writer_container_def)
  have kv: "keyValue writer_container = [(KTXwriter, Text (map of_char ''mine''))]"
    by (simp add: writer_container_def)
  have none: "{p \<in> set (keyValue writer_container). fst p \<noteq> KTXwriter} = {}"
    by (auto simp: kv)
  have a: "set (keyValueList example_externals writer_container
          (merge_options DEFAULT_OPTIONS \<lparr>keepWriter = Some False\<rparr>)) =
     {(KTXwriter, Text (KTX_WRITER example_externals))}"
    using writer_entry_generated [OF p d, of "\<lparr>keepWriter = Some False\<rparr>"] none
    by simp
  have b: "set (keyValueList example_externals writer_container
          (merge_options DEFAULT_OPTIONS \<lparr>keepWriter = Some True\<rparr>)) =
     {(KTXwriter, Text (map of_char ''mine''))}"
    using writer_entry_generated [OF p d, of "\<lparr>keepWriter = Some True\<rparr>"]
    by (simp add: kv)
  show ?thesis
    using p d a b by blast
qed

text \<open>
  The claim as stated fails: with \<open>keepWriter = false\<close> and a caller-supplied \<open>KTXwriter\<close>
  value, the key/value section of the output is the single record of the generated value,
  which differs from the record of the caller's value.
\<close>

theorem caller_writer_overwritten:
  "keyValue writer_container = [(KTXwriter, Text (map of_char ''mine''))] \<and>
   write_container example_externals writer_container \<lparr>keepWriter = Some False\<rparr> =
     Inr (file_image example_externals writer_container \<lparr>keepWriter = Some False\<rparr>) \<and>
   slice (file_image example_externals writer_container \<lparr>keepWriter = Some False\<rparr>)
     (kvdByteOffset example_externals writer_container)
     (kvdByteEnd example_externals writer_container \<lparr>keepWriter = Some False\<rparr>) =
     kv_entry (KTXwriter, Text (KTX_WRITER example_externals)) \<and>
   kv_entry (KTXwriter, Text (KTX_WRITER example_externals)) \<noteq>
     kv_entry (KTXwriter, Text (map of_char ''mine''))"
proof -
  have p: "passes_checks example_externals writer_container"
    by (simp add: passes_checks_def example_externals_def writer_container_def
        example_container_def example_dfd_def is_Array_def)
  have kvl: "keyValueList example_externals writer_container
      (merge_options DEFAULT_OPTIONS \<lparr>keepWriter = Some False\<rparr>) =
      [(KTXwriter, Text (KTX_WRITER example_externals))]"
    by (simp add: keyValueList_def merged_keyValue_def keepWriter_of_merge writer_container_def
        array_sort_def)
  have a: "\<forall>u \<in> set KTXwriter. u < 0x80" by (simp add: KTXwriter_def)
  have b: "\<forall>u \<in> set (KTX_WRITER example_externals). u < 0x80"
    by (simp add: example_externals_def)
  have l1: "length (kv_entry (KTXwriter, Text (KTX_WRITER example_externals))) = 32"
    by (simp add: kv_entry_def Let_def length_encodeText_ascii a b NUL_def getPadding_def)
      (simp add: KTXwriter_def example_externals_def)
  have l2: "length (kv_entry (KTXwriter, Text (map of_char ''mine''))) = 20"
    by (simp add: kv_entry_def Let_def length_encodeText_ascii a NUL_def getPadding_def)
      (simp add: KTXwriter_def)
  have ne: "kv_entry (KTXwriter, Text (KTX_WRITER example_externals)) \<noteq>
     kv_entry (KTXwriter, Text (map of_char ''mine''))"
  proof
    assume "kv_entry (KTXwriter, Text (KTX_WRITER example_externals)) =
     kv_entry (KTXwriter, Text (map of_char ''mine''))"
    then have "(32::nat) = 20" using l1 l2 by simp
    then show False by simp
  qed
  have kv: "keyValue writer_container = [(KTXwriter, Text (map of_char ''mine''))]"
    by (simp add: writer_container_def)
  have sl: "slice (file_image example_externals writer_container \<lparr>keepWriter = Some False\<rparr>)
     (kvdByteOffset example_externals writer_container)
     (kvdByteEnd example_externals writer_container \<lparr>keepWriter = Some False\<rparr>) =
     kv_entry (KTXwriter, Text (KTX_WRITER example_externals))"
    by (simp add: file_image_kvd kvd_section_entries kvl)
  show ?thesis
    using kv write_container_Inr [OF p, of "\<lparr>keepWriter = Some False\<rparr>"] sl ne
    by (intro conjI) blast+
qed




text \<open>
  C3 (the code at a failing input). Two levels, level 1 of \<open>2 ^ 32\<close> zero bytes and level 0
  of the four bytes \<open>1 2 3 4\<close>. The payload of level 0 lies at offset 4294967504, after
  that of level 1, but its level index entry records the offset 208 and the length 4:
  the slice of the output at (208, 212) is four zero bytes of level 1, not the payload of
  level 0. (Below \<open>2 ^ 32\<close> the slice is the payload, lemma \<open>level_slice_below_4GiB\<close>, and
  the payloads are stored last level first, lemma \<open>levels_stored_last_first\<close>.)
\<close>

theorem level_offset_wraps_at_4GiB:
  "write_container example_externals big_container \<lparr>keepWriter = None\<rparr> =
     Inr (file_image example_externals big_container \<lparr>keepWriter = None\<rparr>) \<and>
   levelData (levels big_container ! 0) = [1, 2, 3, 4] \<and>
   getBigUint64 (file_image example_externals big_container \<lparr>keepWriter = None\<rparr>) 80 = 208 \<and>
   getBigUint64 (file_image example_externals big_container \<lparr>keepWriter = None\<rparr>) 88 = 4 \<and>
   slice (file_image example_externals big_container \<lparr>keepWriter = None\<rparr>) 208 212 =
     replicate 4 0 \<and>
   slice (file_image example_externals big_container \<lparr>keepWriter = None\<rparr>)
     4294967504 4294967508 = [1, 2, 3, 4]"
proof -
  let ?f = "file_image example_externals big_container \<lparr>keepWriter = None\<rparr>"
  have id: "length (KTX2_ID example_externals) = 12"
    by (simp add: example_externals_def)
  have n0: "0 < length (levels big_container)" and n1: "Suc 0 < length (levels big_container)"
    by (simp_all add: big_container_def)
  have d0: "levelData (levels big_container ! 0) = [1, 2, 3, 4]"
    and d1: "levelData (levels big_container ! Suc 0) = replicate 4294967296 0"
    by (simp_all add: big_container_def)
  have f0: "getBigUint64 ?f 80 = 208"
    using file_level_fields [OF n0, of example_externals "\<lparr>keepWriter = None\<rparr>"]
    by (simp add: id big_offsets)
  have f1: "getBigUint64 ?f 88 = 4"
    using file_level_fields [OF n0, of example_externals "\<lparr>keepWriter = None\<rparr>"]
    by (simp add: id d0)
  have p1: "slice ?f 208 4294967504 = replicate 4294967296 0"
    using file_level_payload [OF n1, of example_externals "\<lparr>keepWriter = None\<rparr>"]
    by (simp add: big_offsets d1)
  have s: "slice ?f 208 212 = replicate 4 0"
    using slice_prefix [of 212 4294967504 ?f 208] by (simp add: p1)
  have p0: "slice ?f 4294967504 4294967508 = [1, 2, 3, 4]"
    using file_level_payload [OF n0, of example_externals "\<lparr>keepWriter = None\<rparr>"]
    by (simp add: big_offsets d0)
  show ?thesis
    using passes_big by (simp add: write_container_Inr d0 f0 f1 s p0)
qed

theorem level_offset_wraps_at_4GiB_witness:
  "slice (file_image example_externals big_container \<lparr>keepWriter = None\<rparr>)
     (getBigUint64 (file_image example_externals big_container \<lparr>keepWriter = None\<rparr>) 80)
     (getBigUint64 (file_image example_externals big_container \<lparr>keepWriter = None\<rparr>) 80 +
      getBigUint64 (file_image example_externals big_container \<lparr>keepWriter = None\<rparr>) 88) \<noteq>
   levelData (levels big_container ! 0)"
proof -
  have "replicate 4 0 \<noteq> [1, 2, 3, 4 :: byte]"
    by (simp add: numeral_eq_Suc)
  then show ?thesis
    using level_offset_wraps_at_4GiB by simp
qed

text \<open>
  C4. For a container that passes the checks and whose key/value section ends below
  \<open>2 ^ 32\<close> (the header's offsets of the descriptor and key/value sections are 32-bit
  fields; the global data is shorter than \<open>2 ^ 64\<close>): the DFD offset field is the tag size
  plus the header size plus 24 bytes per level; the DFD length field is the size of the
  emitted DFD block; the KVD offset field is their sum and the KVD length field the size
  of the emitted key/value section; both sections lie at these offsets. Without global
  data the SGD offset and length fields are 0 and 0. With global data the SGD offset
  field is the least multiple of 8 from the end of the key/value section on, the bytes
  between are zero, the SGD length field is the size of the global data section, and the
  section lies at that offset.
\<close>

theorem header_offsets:
  assumes "passes_checks K c" and "kvdByteEnd K c options < 2 ^ 32"
    and "length (sgdBuffer c) < 2 ^ 64"
  shows "write_container K c options = Inr (file_image K c options) \<and>
    getUint32 (file_image K c options) (length (KTX2_ID K) + 36) =
      length (KTX2_ID K) + HEADER_BYTE_LENGTH + 24 * length (levels c) \<and>
    getUint32 (file_image K c options) (length (KTX2_ID K) + 40) = length (dfd_section K c) \<and>
    getUint32 (file_image K c options) (length (KTX2_ID K) + 44) =
      getUint32 (file_image K c options) (length (KTX2_ID K) + 36) + length (dfd_section K c) \<and>
    getUint32 (file_image K c options) (length (KTX2_ID K) + 48) =
      length (kvd_section K c options) \<and>
    slice (file_image K c options) (dfdByteOffset K c) (kvdByteOffset K c) = dfd_section K c \<and>
    slice (file_image K c options) (kvdByteOffset K c) (kvdByteEnd K c options) =
      kvd_section K c options \<and>
    dfdByteOffset K c = getUint32 (file_image K c options) (length (KTX2_ID K) + 36) \<and>
    kvdByteOffset K c = getUint32 (file_image K c options) (length (KTX2_ID K) + 44) \<and>
    kvdByteEnd K c options = kvdByteOffset K c + length (kvd_section K c options) \<and>
    (globalData c = None \<longrightarrow>
       sgdBuffer c = [] \<and>
       getBigUint64 (file_image K c options) (length (KTX2_ID K) + 52) = 0 \<and>
       getBigUint64 (file_image K c options) (length (KTX2_ID K) + 60) = 0) \<and>
    (globalData c \<noteq> None \<longrightarrow>
       getBigUint64 (file_image K c options) (length (KTX2_ID K) + 52) = sgdOffset K c options \<and>
       getBigUint64 (file_image K c options) (length (KTX2_ID K) + 60) = length (sgdBuffer c) \<and>
       kvdByteEnd K c options \<le> sgdOffset K c options \<and>
       sgdOffset K c options < kvdByteEnd K c options + 8 \<and>
       sgdOffset K c options mod 8 = 0 \<and>
       slice (file_image K c options) (kvdByteEnd K c options) (sgdOffset K c options) =
         replicate (sgdOffset K c options - kvdByteEnd K c options) 0 \<and>
       slice (file_image K c options) (sgdOffset K c options)
         (sgdOffset K c options + length (sgdBuffer c)) = sgdBuffer c)"
proof -
  let ?f = "file_image K c options"
  let ?L = "length (KTX2_ID K)"
  note hv = file_header_values [of K c options]
  have small: "dfdByteOffset K c < 2 ^ 32" "length (dfd_section K c) < 2 ^ 32"
    "kvdByteOffset K c < 2 ^ 32" "length (kvd_section K c options) < 2 ^ 32"
    using assms(2) by (simp_all add: kvdByteEnd_def kvdByteOffset_def)
  have h36: "getUint32 ?f (?L + 36) = dfdByteOffset K c"
    and h40: "getUint32 ?f (?L + 40) = length (dfd_section K c)"
    and h44: "getUint32 ?f (?L + 44) = kvdByteOffset K c"
    and h48: "getUint32 ?f (?L + 48) = length (kvd_section K c options)"
    using hv small by simp_all
  have none: "sgdBuffer c = [] \<and> getBigUint64 ?f (?L + 52) = 0 \<and> getBigUint64 ?f (?L + 60) = 0"
    if "globalData c = None"
    using hv sgdBuffer_None [OF that] by simp
  have some: "getBigUint64 ?f (?L + 52) = sgdOffset K c options \<and>
       getBigUint64 ?f (?L + 60) = length (sgdBuffer c) \<and>
       kvdByteEnd K c options \<le> sgdOffset K c options \<and>
       sgdOffset K c options < kvdByteEnd K c options + 8 \<and>
       sgdOffset K c options mod 8 = 0 \<and>
       slice ?f (kvdByteEnd K c options) (sgdOffset K c options) =
         replicate (sgdOffset K c options - kvdByteEnd K c options) 0 \<and>
       slice ?f (sgdOffset K c options) (sgdOffset K c options + length (sgdBuffer c)) =
         sgdBuffer c"
    if "globalData c \<noteq> None"
  proof -
    from that obtain g where g: "globalData c = Some g" by auto
    have pos: "0 < length (sgdBuffer c)"
      using length_sgdBuffer_Some [OF g] by simp
    have b: "kvdByteEnd K c options \<le> sgdOffset K c options \<and>
       sgdOffset K c options < kvdByteEnd K c options + 8 \<and>
       sgdOffset K c options mod 8 = 0"
      using sgdByteOffset_pos [OF pos, of "kvdByteOffset K c" "length (kvd_section K c options)"]
      by (simp add: sgdOffset_def kvdByteEnd_def)
    then have "sgdOffset K c options < 2 ^ 64" using assms(2) by simp
    then show ?thesis
      using hv pos b assms(3) file_image_sgd [OF pos, of K options] by simp
  qed
  have wr: "write_container K c options = Inr ?f"
    using assms(1) by (rule write_container_Inr)
  have doff: "dfdByteOffset K c = ?L + HEADER_BYTE_LENGTH + 24 * length (levels c)"
    by (simp add: dfdByteOffset_def)
  have b36: "getUint32 ?f (?L + 36) = ?L + HEADER_BYTE_LENGTH + 24 * length (levels c)"
    using h36 doff by simp
  have b44: "getUint32 ?f (?L + 44) = getUint32 ?f (?L + 36) + length (dfd_section K c)"
    using h44 h36 by (simp add: kvdByteOffset_def)
  have e: "kvdByteEnd K c options = kvdByteOffset K c + length (kvd_section K c options)"
    by (simp add: kvdByteEnd_def)
  note d = file_image_dfd [of K c options] and k = file_image_kvd [of K c options]
  show ?thesis
    using wr b36 h40 b44 h48 d k h36 [symmetric] h44 [symmetric] e none some
    by (intro conjI impI) blast+
qed

theorem header_offsets_witness:
  "passes_checks example_externals sgd_container \<and>
   kvdByteEnd example_externals sgd_container \<lparr>keepWriter = None\<rparr> < 2 ^ 32 \<and>
   length (sgdBuffer sgd_container) < 2 ^ 64 \<and>
   globalData sgd_container \<noteq> None \<and>
   getUint32 (file_image example_externals sgd_container \<lparr>keepWriter = None\<rparr>) 48 = 104 \<and>
   getBigUint64 (file_image example_externals sgd_container \<lparr>keepWriter = None\<rparr>) 64 =
     sgdOffset example_externals sgd_container \<lparr>keepWriter = None\<rparr> \<and>
   passes_checks example_externals example_container \<and>
   globalData example_container = None \<and>
   getBigUint64 (file_image example_externals example_container \<lparr>keepWriter = None\<rparr>) 64 = 0"
proof -
  have a: "kvdByteEnd example_externals sgd_container \<lparr>keepWriter = None\<rparr> < 2 ^ 32"
    by (simp add: sgd_kvdByteEnd)
  have b: "length (sgdBuffer sgd_container) < 2 ^ 64"
    by (simp add: length_sgdBuffer_Some [OF sgd_container_global])
  have a': "kvdByteEnd example_externals example_container \<lparr>keepWriter = None\<rparr> < 2 ^ 32"
    by (simp add: example_kvdByteEnd)
  have n: "globalData example_container = None"
    by (simp add: example_container_def)
  have b': "length (sgdBuffer example_container) < 2 ^ 64"
    by (simp add: sgdBuffer_None [OF n])
  have id: "length (KTX2_ID example_externals) = 12"
    by (simp add: example_externals_def)
  have lv: "length (levels sgd_container) = 1"
    by (simp add: sgd_container_def example_container_def)
  show ?thesis
    using header_offsets [OF passes_sgd a b] header_offsets [OF passes_example a' b']
      passes_sgd a b n
    by (simp add: id lv sgd_container_global HEADER_BYTE_LENGTH_def)
qed

text \<open>
  C5. For a container that passes the checks: with supercompression scheme \<open>NONE\<close> and a
  texel block of positive byte length, the payload of every level starts in the output at
  a multiple of \<open>lcm(blockByteLength, 4)\<close>; with any other scheme the level data region is
  the payloads alone, last level first, with no padding between them; and every record of
  the key/value section, with its padding, has a length that is a multiple of 4.
\<close>

theorem alignment:
  assumes "passes_checks K c"
  shows "write_container K c options = Inr (file_image K c options) \<and>
    (supercompressionScheme c = KHR_SUPERCOMPRESSION_NONE K \<and> 0 < getBlockByteLength K c \<longrightarrow>
       (\<forall>i < length (levels c).
          lcm (getBlockByteLength K c) 4 dvd levelOffset K c options i \<and>
          slice (file_image K c options) (levelOffset K c options i)
            (levelOffset K c options i + length (levelData (levels c ! i))) =
          levelData (levels c ! i))) \<and>
    (supercompressionScheme c \<noteq> KHR_SUPERCOMPRESSION_NONE K \<longrightarrow>
       drop (levelDataStart K c options) (file_image K c options) =
       concat (map levelData (rev (levels c)))) \<and>
    slice (file_image K c options) (kvdByteOffset K c) (kvdByteEnd K c options) =
      concat (map kv_entry (keyValueList K c (merge_options DEFAULT_OPTIONS options))) \<and>
    (\<forall>kv. 4 dvd length (kv_entry kv))"
proof -
  have wr: "write_container K c options = Inr (file_image K c options)"
    using assms by (rule write_container_Inr)
  have none: "lcm (getBlockByteLength K c) 4 dvd levelOffset K c options i \<and>
          slice (file_image K c options) (levelOffset K c options i)
            (levelOffset K c options i + length (levelData (levels c ! i))) =
          levelData (levels c ! i)"
    if "supercompressionScheme c = KHR_SUPERCOMPRESSION_NONE K" and "0 < getBlockByteLength K c"
      and "i < length (levels c)" for i
  proof -
    have A: "levelAlign_of K c = lcm (getBlockByteLength K c) 4"
      using that(1) by (simp add: levelAlign_of_def leastCommonMultiple_def)
    have "0 < lcm (getBlockByteLength K c) 4"
      using that(2) by (simp add: lcm_pos_nat)
    then have "levelOffset K c options i mod lcm (getBlockByteLength K c) 4 = 0"
      using level_pos_aligned [of "levelAlign_of K c" i "length (levels c)" "levels c"
          "levelDataStart K c options"] that(3)
      by (simp add: levelOffset_def A)
    then show ?thesis
      using file_level_payload [OF that(3), of K options] by (simp add: mod_eq_0_iff_dvd)
  qed
  have other: "drop (levelDataStart K c options) (file_image K c options) =
       concat (map levelData (rev (levels c)))"
    if "supercompressionScheme c \<noteq> KHR_SUPERCOMPRESSION_NONE K"
  proof -
    have "levelAlign_of K c = 0"
      using that by (simp add: levelAlign_of_def)
    then show ?thesis
      by (simp add: file_image_levels level_bytes_unpadded)
  qed
  have kvd: "slice (file_image K c options) (kvdByteOffset K c) (kvdByteEnd K c options) =
      concat (map kv_entry (keyValueList K c (merge_options DEFAULT_OPTIONS options)))"
    by (simp add: file_image_kvd kvd_section_entries)
  have four: "\<forall>kv. 4 dvd length (kv_entry kv)"
    by (simp add: kv_entry_length flip: mod_eq_0_iff_dvd)
  show ?thesis
    using wr none other kvd four by (intro conjI impI allI) blast+
qed

theorem alignment_witness:
  "passes_checks example_externals example_container \<and>
   supercompressionScheme example_container = KHR_SUPERCOMPRESSION_NONE example_externals \<and>
   0 < getBlockByteLength example_externals example_container \<and>
   0 < length (levels example_container) \<and>
   lcm (getBlockByteLength example_externals example_container) 4 dvd
     levelOffset example_externals example_container \<lparr>keepWriter = None\<rparr> 0 \<and>
   levelOffset example_externals example_container \<lparr>keepWriter = None\<rparr> 0 = 184 \<and>
   passes_checks example_externals sgd_container \<and>
   supercompressionScheme sgd_container \<noteq> KHR_SUPERCOMPRESSION_NONE example_externals \<and>
   drop (levelDataStart example_externals sgd_container \<lparr>keepWriter = None\<rparr>)
     (file_image example_externals sgd_container \<lparr>keepWriter = None\<rparr>) = [1, 2, 3, 4]"
proof -
  have s: "supercompressionScheme example_container = KHR_SUPERCOMPRESSION_NONE example_externals"
    by (simp add: example_container_def example_externals_def)
  have b: "0 < getBlockByteLength example_externals example_container"
    by (simp add: example_container_def example_externals_def example_dfd_def)
  have n: "0 < length (levels example_container)"
    by (simp add: example_container_def)
  have g: "globalData example_container = None"
    by (simp add: example_container_def)
  have o: "levelOffset example_externals example_container \<lparr>keepWriter = None\<rparr> 0 = 184"
    by (simp add: levelOffset_def levelDataStart_None [OF g] example_kvdByteEnd example_align)
      (simp add: example_container_def place_def)
  have s': "supercompressionScheme sgd_container \<noteq> KHR_SUPERCOMPRESSION_NONE example_externals"
    by (simp add: sgd_container_def example_externals_def)
  have l: "concat (map levelData (rev (levels sgd_container))) = [1, 2, 3, 4]"
    by (simp add: sgd_container_def example_container_def)
  have 1: "lcm (getBlockByteLength example_externals example_container) 4 dvd
     levelOffset example_externals example_container \<lparr>keepWriter = None\<rparr> 0"
    using alignment [OF passes_example, of "\<lparr>keepWriter = None\<rparr>"] s b n by blast
  have 2: "drop (levelDataStart example_externals sgd_container \<lparr>keepWriter = None\<rparr>)
     (file_image example_externals sgd_container \<lparr>keepWriter = None\<rparr>) = [1, 2, 3, 4]"
    using alignment [OF passes_sgd, of "\<lparr>keepWriter = None\<rparr>"] s' l by simp
  show ?thesis
    using passes_example s b n 1 o passes_sgd s' 2 by blast
qed

text \<open>
  C6 (as amended). For a container that passes the checks, the records of the key/value
  section follow one another in strictly ascending order of their keys compared as
  strings, that is by UTF-16 code units (not by locale). When every key is ASCII this is
  the strictly ascending order of the UTF-8 bytes of the keys.
\<close>

theorem kvd_entries_sorted:
  assumes "passes_checks K c" and "distinct (map fst (keyValue c))"
  shows "write_container K c options = Inr (file_image K c options) \<and>
    slice (file_image K c options) (kvdByteOffset K c) (kvdByteEnd K c options) =
      concat (map kv_entry (keyValueList K c (merge_options DEFAULT_OPTIONS options))) \<and>
    sorted_wrt (\<lambda>a b. fst a < fst b)
      (keyValueList K c (merge_options DEFAULT_OPTIONS options)) \<and>
    ((\<forall>kv \<in> set (keyValueList K c (merge_options DEFAULT_OPTIONS options)).
        \<forall>u \<in> set (fst kv). u < 0x80) \<longrightarrow>
     sorted_wrt (\<lambda>a b. encodeText (fst a) < encodeText (fst b))
       (keyValueList K c (merge_options DEFAULT_OPTIONS options)))"
proof -
  let ?kvl = "keyValueList K c (merge_options DEFAULT_OPTIONS options)"
  have s: "sorted_wrt key_less ?kvl"
    by (rule sorted_keyValueList [OF assms(2)])
  have "sorted_wrt (\<lambda>a b. encodeText (fst a) < encodeText (fst b)) ?kvl"
    if "\<forall>kv \<in> set ?kvl. \<forall>u \<in> set (fst kv). u < 0x80"
    using s by (rule sorted_wrt_mono_rel [rotated]) (use that in \<open>simp add: encodeText_ascii_mono\<close>)
  then show ?thesis
    using assms(1) s
    by (simp add: write_container_Inr file_image_kvd kvd_section_entries)
qed

theorem kvd_entries_sorted_witness:
  "passes_checks example_externals example_container \<and>
   distinct (map fst (keyValue example_container)) \<and>
   keyValueList example_externals example_container
     (merge_options DEFAULT_OPTIONS \<lparr>keepWriter = None\<rparr>) =
     [(KTXwriter, Text (KTX_WRITER example_externals)),
      (map of_char ''Orientation'', Text (map of_char ''S''))] \<and>
   sorted_wrt (\<lambda>a b. encodeText (fst a) < encodeText (fst b))
     (keyValueList example_externals example_container
       (merge_options DEFAULT_OPTIONS \<lparr>keepWriter = None\<rparr>))"
proof -
  have d: "distinct (map fst (keyValue example_container))"
    by (simp add: example_container_def)
  have kvl: "keyValueList example_externals example_container
     (merge_options DEFAULT_OPTIONS \<lparr>keepWriter = None\<rparr>) =
     [(KTXwriter, Text (KTX_WRITER example_externals)),
      (map of_char ''Orientation'', Text (map of_char ''S''))]"
    by (simp add: keyValueList_def merged_keyValue_def keepWriter_of_merge example_container_def
        KTXwriter_def array_sort_def compareFn_def)
  have ascii: "\<forall>kv \<in> set (keyValueList example_externals example_container
       (merge_options DEFAULT_OPTIONS \<lparr>keepWriter = None\<rparr>)). \<forall>u \<in> set (fst kv). u < 0x80"
    unfolding kvl by (simp add: KTXwriter_def)
  show ?thesis
    using kvd_entries_sorted [OF passes_example d, of "\<lparr>keepWriter = None\<rparr>"] ascii d kvl
    by simp
qed

text \<open>
  The claim as stated fails for keys outside ASCII: U+10000 is the surrogate pair
  \<open>D800 DC00\<close>, which sorts before the code unit \<open>FF5E\<close>, while its UTF-8 bytes
  \<open>F0 90 80 80\<close> are greater than \<open>EF BD 9E\<close>.
\<close>

theorem utf8_order_violated:
  "write_container example_externals utf_container \<lparr>keepWriter = Some True\<rparr> =
     Inr (file_image example_externals utf_container \<lparr>keepWriter = Some True\<rparr>) \<and>
   slice (file_image example_externals utf_container \<lparr>keepWriter = Some True\<rparr>)
     (kvdByteOffset example_externals utf_container)
     (kvdByteEnd example_externals utf_container \<lparr>keepWriter = Some True\<rparr>) =
     kv_entry ([0xD800, 0xDC00], Raw []) @ kv_entry ([0xFF5E], Raw []) \<and>
   encodeText [0xD800, 0xDC00] = [0xF0, 0x90, 0x80, 0x80] \<and>
   encodeText [0xFF5E] = [0xEF, 0xBD, 0x9E] \<and>
   encodeText [0xFF5E] < encodeText [0xD800, 0xDC00]"
proof -
  have p: "passes_checks example_externals utf_container"
    by (simp add: passes_checks_def example_externals_def utf_container_def
        example_container_def example_dfd_def is_Array_def)
  have kvl: "keyValueList example_externals utf_container
      (merge_options DEFAULT_OPTIONS \<lparr>keepWriter = Some True\<rparr>) =
      [([0xD800, 0xDC00], Raw []), ([0xFF5E], Raw [])]"
    by (simp add: keyValueList_def merged_keyValue_def keepWriter_of_merge utf_container_def
        array_sort_def compareFn_def)
  have e1: "encodeText [0xD800, 0xDC00] = [0xF0, 0x90, 0x80, 0x80]"
    by (simp add: encodeText_def is_high_def is_low_def utf8_def)
  have e2: "encodeText [0xFF5E] = [0xEF, 0xBD, 0x9E]"
    by (simp add: encodeText_def scalar_of_def is_high_def is_low_def utf8_def)
  show ?thesis
    using p by (simp add: write_container_Inr file_image_kvd kvd_section_entries kvl e1 e2)
qed

text \<open>
  C7 (as amended). A container that passes the checks with one level of 4 bytes
  (\<open>uncompressedByteLength = 4\<close>), no global data, scheme \<open>NONE\<close>, the key/value map
  \<open>{"Orientation": "S"}\<close> and \<open>keepWriter\<close> not true (level data starting below \<open>2 ^ 32\<close>):
  the level count field is 1; the key/value section is the record of the generated
  \<open>KTXwriter\<close> entry followed by that of \<open>Orientation\<close> (\<open>K\<close> sorts before \<open>O\<close>); the SGD
  offset and length fields are 0; the offset field of the level index entry is the end of
  the key/value section rounded up to the level alignment, its length fields are 4, and
  the payload lies at that offset.
\<close>

theorem orientation_scenario:
  assumes "passes_checks K c"
    and "levels c = [lv]" and "length (levelData lv) = 4" and "uncompressedByteLength lv = 4"
    and "globalData c = None"
    and "supercompressionScheme c = KHR_SUPERCOMPRESSION_NONE K"
    and "keyValue c = [(map of_char ''Orientation'', Text (map of_char ''S''))]"
    and "keepWriter options \<noteq> Some True"
    and "kvdByteEnd K c options + lcm (getBlockByteLength K c) 4 < 2 ^ 32"
  shows "write_container K c options = Inr (file_image K c options) \<and>
    getUint32 (file_image K c options) (length (KTX2_ID K) + 28) = 1 \<and>
    keyValueList K c (merge_options DEFAULT_OPTIONS options) =
      [(KTXwriter, Text (KTX_WRITER K)),
       (map of_char ''Orientation'', Text (map of_char ''S''))] \<and>
    slice (file_image K c options) (kvdByteOffset K c) (kvdByteEnd K c options) =
      kv_entry (KTXwriter, Text (KTX_WRITER K)) @
      kv_entry (map of_char ''Orientation'', Text (map of_char ''S'')) \<and>
    getBigUint64 (file_image K c options) (length (KTX2_ID K) + 52) = 0 \<and>
    getBigUint64 (file_image K c options) (length (KTX2_ID K) + 60) = 0 \<and>
    getBigUint64 (file_image K c options) (length (KTX2_ID K) + 68) =
      kvdByteEnd K c options +
      getPadding (kvdByteEnd K c options) (lcm (getBlockByteLength K c) 4) \<and>
    getBigUint64 (file_image K c options) (length (KTX2_ID K) + 76) = 4 \<and>
    getBigUint64 (file_image K c options) (length (KTX2_ID K) + 84) = 4 \<and>
    slice (file_image K c options)
      (getBigUint64 (file_image K c options) (length (KTX2_ID K) + 68))
      (getBigUint64 (file_image K c options) (length (KTX2_ID K) + 68) + 4) = levelData lv"
proof -
  let ?f = "file_image K c options"
  let ?L = "length (KTX2_ID K)"
  let ?A = "lcm (getBlockByteLength K c) 4"
  let ?end = "kvdByteEnd K c options"
  have wr: "write_container K c options = Inr ?f"
    using assms(1) by (rule write_container_Inr)
  note hv = file_header_values [of K c options]
  have cnt: "getUint32 ?f (?L + 28) = 1"
    using hv by (simp add: assms(2))
  have kvl: "keyValueList K c (merge_options DEFAULT_OPTIONS options) =
      [(KTXwriter, Text (KTX_WRITER K)),
       (map of_char ''Orientation'', Text (map of_char ''S''))]"
    using assms(8)
    by (simp add: keyValueList_def merged_keyValue_def keepWriter_of_merge assms(7)
        KTXwriter_def array_sort_def compareFn_def)
  have kvd: "slice ?f (kvdByteOffset K c) ?end =
      kv_entry (KTXwriter, Text (KTX_WRITER K)) @
      kv_entry (map of_char ''Orientation'', Text (map of_char ''S''))"
    by (simp only: file_image_kvd kvd_section_entries kvl list.map concat.simps append_Nil2)
  have sgd: "getBigUint64 ?f (?L + 52) = 0" "getBigUint64 ?f (?L + 60) = 0"
    using hv by (simp_all add: sgdBuffer_None [OF assms(5)])
  have A: "levelAlign_of K c = ?A"
    using assms(6) by (simp add: levelAlign_of_def leastCommonMultiple_def)
  have n: "0 < length (levels c)" by (simp add: assms(2))
  have lv: "levels c ! 0 = lv" by (simp add: assms(2))
  have off: "levelOffset K c options 0 = ?end + getPadding ?end ?A"
    by (simp add: levelOffset_def assms(2) levelDataStart_None [OF assms(5)] A place_eq)
  have "getPadding ?end ?A \<le> ?A"
  proof (cases "?A = 0")
    case True
    then show ?thesis by (simp add: getPadding_def)
  next
    case False
    then have "0 < ?A" by (simp only: neq0_conv)
    then have "getPadding ?end ?A < ?A" by (rule getPadding_less)
    then show ?thesis by (rule less_imp_le)
  qed
  then have small: "?end + getPadding ?end ?A < 2 ^ 32"
    using assms(9) by simp
  have f68: "getBigUint64 ?f (?L + 68) = ?end + getPadding ?end ?A"
    and f76: "getBigUint64 ?f (?L + 76) = 4"
    and f84: "getBigUint64 ?f (?L + 84) = 4"
    using file_level_fields [OF n, of K options] small
    by (simp_all add: off lv assms(3,4) add.commute)
  have pay: "slice ?f (getBigUint64 ?f (?L + 68)) (getBigUint64 ?f (?L + 68) + 4) = levelData lv"
    using file_level_payload [OF n, of K options]
    by (simp only: f68 off lv assms(3))
  show ?thesis
    using wr cnt kvl kvd sgd f68 f76 f84 pay by (intro conjI) blast+
qed

theorem orientation_scenario_witness:
  "passes_checks example_externals example_container \<and>
   levels example_container = [\<lparr>levelData = [1, 2, 3, 4], uncompressedByteLength = 4\<rparr>] \<and>
   kvdByteEnd example_externals example_container \<lparr>keepWriter = Some False\<rparr> +
     lcm (getBlockByteLength example_externals example_container) 4 < 2 ^ 32 \<and>
   getBigUint64 (file_image example_externals example_container \<lparr>keepWriter = Some False\<rparr>)
     (length (KTX2_ID example_externals) + 68) = 184 \<and>
   slice (file_image example_externals example_container \<lparr>keepWriter = Some False\<rparr>)
     184 188 = [1, 2, 3, 4]"
proof -
  have l: "levels example_container = [\<lparr>levelData = [1, 2, 3, 4], uncompressedByteLength = 4\<rparr>]"
    and g: "globalData example_container = None"
    and s: "supercompressionScheme example_container = KHR_SUPERCOMPRESSION_NONE example_externals"
    and k: "keyValue example_container = [(map of_char ''Orientation'', Text (map of_char ''S''))]"
    by (simp_all add: example_container_def example_externals_def)
  have e: "kvdByteEnd example_externals example_container \<lparr>keepWriter = Some False\<rparr> = 184"
    using example_kvdByteEnd
    by (simp add: kvdByteEnd_def kvd_section_def merge_options_def DEFAULT_OPTIONS_def)
  have b: "lcm (getBlockByteLength example_externals example_container) 4 = 4"
    by (simp add: example_container_def example_externals_def example_dfd_def)
  have small: "kvdByteEnd example_externals example_container \<lparr>keepWriter = Some False\<rparr> +
     lcm (getBlockByteLength example_externals example_container) 4 < 2 ^ 32"
    by (simp add: e b)
  have p: "getPadding 184 4 = 0" by (simp add: getPadding_def)
  let ?f = "file_image example_externals example_container \<lparr>keepWriter = Some False\<rparr>"
  let ?o = "getBigUint64 ?f (length (KTX2_ID example_externals) + 68)"
  let ?lv = "\<lparr>levelData = [1, 2, 3, 4], uncompressedByteLength = 4\<rparr>"
  have l4: "length (levelData ?lv) = 4" and u4: "uncompressedByteLength ?lv = 4"
    and kw: "keepWriter \<lparr>keepWriter = Some False\<rparr> \<noteq> Some True"
    by simp_all
  note t = orientation_scenario [OF passes_example l l4 u4 g s k kw small]
  from t have "?o =
      kvdByteEnd example_externals example_container \<lparr>keepWriter = Some False\<rparr> +
      getPadding (kvdByteEnd example_externals example_container \<lparr>keepWriter = Some False\<rparr>)
        (lcm (getBlockByteLength example_externals example_container) 4)"
    by blast
  then have f: "?o = 184"
    by (simp add: e b p)
  from t have "slice ?f ?o (?o + 4) = levelData ?lv"
    by blast
  then have "slice ?f 184 188 = [1, 2, 3, 4]"
    by (simp add: f)
  then show ?thesis
    using passes_example l small f by blast
qed

text \<open>
  The claim as stated fails in the order of the two entries: the section starts with the
  record of \<open>KTXwriter\<close> (length field 27), not with that of \<open>Orientation\<close> (length field
  14).
\<close>

theorem orientation_after_writer:
  "keyValueList example_externals example_container
     (merge_options DEFAULT_OPTIONS \<lparr>keepWriter = Some False\<rparr>) =
     [(KTXwriter, Text (KTX_WRITER example_externals)),
      (map of_char ''Orientation'', Text (map of_char ''S''))] \<and>
   write_container example_externals example_container \<lparr>keepWriter = Some False\<rparr> =
     Inr (file_image example_externals example_container \<lparr>keepWriter = Some False\<rparr>) \<and>
   slice (file_image example_externals example_container \<lparr>keepWriter = Some False\<rparr>)
     (kvdByteOffset example_externals example_container)
     (kvdByteEnd example_externals example_container \<lparr>keepWriter = Some False\<rparr>) =
     kv_entry (KTXwriter, Text (KTX_WRITER example_externals)) @
     kv_entry (map of_char ''Orientation'', Text (map of_char ''S'')) \<and>
   slice (file_image example_externals example_container \<lparr>keepWriter = Some False\<rparr>)
     (kvdByteOffset example_externals example_container)
     (kvdByteEnd example_externals example_container \<lparr>keepWriter = Some False\<rparr>) \<noteq>
     kv_entry (map of_char ''Orientation'', Text (map of_char ''S'')) @
     kv_entry (KTXwriter, Text (KTX_WRITER example_externals)) \<and>
   take 4 (kv_entry (KTXwriter, Text (KTX_WRITER example_externals)) @
     kv_entry (map of_char ''Orientation'', Text (map of_char ''S''))) = [27, 0, 0, 0] \<and>
   take 4 (kv_entry (map of_char ''Orientation'', Text (map of_char ''S'')) @
     kv_entry (KTXwriter, Text (KTX_WRITER example_externals))) = [14, 0, 0, 0]"
proof -
  have kvl: "keyValueList example_externals example_container
     (merge_options DEFAULT_OPTIONS \<lparr>keepWriter = Some False\<rparr>) =
     [(KTXwriter, Text (KTX_WRITER example_externals)),
      (map of_char ''Orientation'', Text (map of_char ''S''))]"
    by (simp add: keyValueList_def merged_keyValue_def keepWriter_of_merge
        example_container_def KTXwriter_def array_sort_def compareFn_def)
  have a: "\<forall>u \<in> set KTXwriter. u < 0x80" by (simp add: KTXwriter_def)
  have b: "\<forall>u \<in> set (KTX_WRITER example_externals). u < 0x80"
    by (simp add: example_externals_def)
  have t1: "take 4 (kv_entry (KTXwriter, Text (KTX_WRITER example_externals)) @ r) = [27, 0, 0, 0]"
    for r
    by (simp add: kv_entry_def Let_def length_encodeText_ascii a b NUL_def u32le_def)
      (simp add: KTXwriter_def example_externals_def)
  have t2: "take 4 (kv_entry (map of_char ''Orientation'', Text (map of_char ''S'')) @ r) =
      [14, 0, 0, 0]" for r
    by (simp add: kv_entry_def Let_def length_encodeText_ascii NUL_def u32le_def)
  have kvd: "slice (file_image example_externals example_container \<lparr>keepWriter = Some False\<rparr>)
     (kvdByteOffset example_externals example_container)
     (kvdByteEnd example_externals example_container \<lparr>keepWriter = Some False\<rparr>) =
     kv_entry (KTXwriter, Text (KTX_WRITER example_externals)) @
     kv_entry (map of_char ''Orientation'', Text (map of_char ''S''))"
    by (simp only: file_image_kvd kvd_section_entries kvl list.map concat.simps append_Nil2)
  have ne: "kv_entry (KTXwriter, Text (KTX_WRITER example_externals)) @
     kv_entry (map of_char ''Orientation'', Text (map of_char ''S'')) \<noteq>
     kv_entry (map of_char ''Orientation'', Text (map of_char ''S'')) @
     kv_entry (KTXwriter, Text (KTX_WRITER example_externals))"
  proof
    assume "kv_entry (KTXwriter, Text (KTX_WRITER example_externals)) @
     kv_entry (map of_char ''Orientation'', Text (map of_char ''S'')) =
     kv_entry (map of_char ''Orientation'', Text (map of_char ''S'')) @
     kv_entry (KTXwriter, Text (KTX_WRITER example_externals))"
    then have "[27, 0, 0, 0] = [14, 0, 0, 0 :: byte]"
      using t1 t2 by metis
    then show False by simp
  qed
  have ne2: "slice (file_image example_externals example_container \<lparr>keepWriter = Some False\<rparr>)
     (kvdByteOffset example_externals example_container)
     (kvdByteEnd example_externals example_container \<lparr>keepWriter = Some False\<rparr>) \<noteq>
     kv_entry (map of_char ''Orientation'', Text (map of_char ''S'')) @
     kv_entry (KTXwriter, Text (KTX_WRITER example_externals))"
    unfolding kvd by (rule ne)
  show ?thesis
    using kvl kvd ne2 t1 t2
      write_container_Inr [OF passes_example, of "\<lparr>keepWriter = Some False\<rparr>"]
    by (intro conjI) blast+
qed

text \<open>
  C8. For a container that passes the checks and has \<open>globalData\<close>, the global data
  section lies in the output at the offset \<open>sgdOffset\<close> and is: the 20-byte header (two
  little-endian u16 counts, four little-endian u32 payload lengths), one 20-byte record
  per image description (five little-endian u32 fields), then the four payloads in the
  order endpoints, selectors, tables, extended, with nothing between them. Its length is
  the sum of these, so that with four empty payloads the section is the header and the
  records, and it is never empty.
\<close>

theorem sgd_section_layout:
  assumes "passes_checks K c" and "globalData c = Some g"
  shows "write_container K c options = Inr (file_image K c options) \<and>
    slice (file_image K c options) (sgdOffset K c options)
      (sgdOffset K c options + length (sgdBuffer c)) = sgdBuffer c \<and>
    sgdBuffer c =
      (u16le (int (endpointCount g)) @ u16le (int (selectorCount g)) @
       u32le (int (length (endpointsData g))) @ u32le (int (length (selectorsData g))) @
       u32le (int (length (tablesData g))) @ u32le (int (length (extendedData g)))) @
      concat (map (\<lambda>d.
        u32le (int (imageFlags d)) @ u32le (int (rgbSliceByteOffset d)) @
        u32le (int (rgbSliceByteLength d)) @ u32le (int (alphaSliceByteOffset d)) @
        u32le (int (alphaSliceByteLength d))) (imageDescs g)) @
      endpointsData g @ selectorsData g @ tablesData g @ extendedData g \<and>
    length (sgdBuffer c) =
      20 + 20 * length (imageDescs g) + length (endpointsData g) + length (selectorsData g) +
      length (tablesData g) + length (extendedData g) \<and>
    sgdBuffer c \<noteq> []"
proof -
  have rec: "imageDesc_record = (\<lambda>d.
        u32le (int (imageFlags d)) @ u32le (int (rgbSliceByteOffset d)) @
        u32le (int (rgbSliceByteLength d)) @ u32le (int (alphaSliceByteOffset d)) @
        u32le (int (alphaSliceByteLength d)))"
    by (rule ext) (simp add: imageDesc_record_def)
  have len: "length (sgdBuffer c) =
      20 + 20 * length (imageDescs g) + length (endpointsData g) + length (selectorsData g) +
      length (tablesData g) + length (extendedData g)"
    by (rule length_sgdBuffer_Some [OF assms(2)])
  then have pos: "0 < length (sgdBuffer c)" by simp
  have lay: "sgdBuffer c =
      (u16le (int (endpointCount g)) @ u16le (int (selectorCount g)) @
       u32le (int (length (endpointsData g))) @ u32le (int (length (selectorsData g))) @
       u32le (int (length (tablesData g))) @ u32le (int (length (extendedData g)))) @
      concat (map (\<lambda>d.
        u32le (int (imageFlags d)) @ u32le (int (rgbSliceByteOffset d)) @
        u32le (int (rgbSliceByteLength d)) @ u32le (int (alphaSliceByteOffset d)) @
        u32le (int (alphaSliceByteLength d))) (imageDescs g)) @
      endpointsData g @ selectorsData g @ tablesData g @ extendedData g"
    unfolding sgdBuffer_Some [OF assms(2)] rec sgd_header_def by simp
  from pos have ne: "sgdBuffer c \<noteq> []" by auto
  show ?thesis
    using assms(1) file_image_sgd(1) [OF pos, of K options] lay len ne
    by (simp only: write_container_Inr simp_thms)
qed

theorem sgd_section_layout_witness:
  "passes_checks example_externals sgd_container \<and>
   globalData sgd_container \<noteq> None \<and>
   length (sgdBuffer sgd_container) = 40"
  using sgd_section_layout [OF passes_sgd sgd_container_global, of "\<lparr>keepWriter = None\<rparr>"]
    passes_sgd
  by (simp add: sgd_container_global)

text \<open>
  C9. \<open>write\<close> is a function of the container and the options: its result is the same
  for two containers that agree in every field and hold the same key/value mapping, in
  whatever order the properties of \<open>keyValue\<close> are enumerated (the external helper
  \<open>getBlockByteLength\<close> returning the same length for both). In particular two calls
  with the same container and the same options return the same bytes.
\<close>

theorem write_deterministic:
  assumes "distinct (map fst (keyValue c))" and "distinct (map fst kv')"
    and "set kv' = set (keyValue c)"
    and "getBlockByteLength K (c\<lparr>keyValue := kv'\<rparr>) = getBlockByteLength K c"
  shows "write_container K (c\<lparr>keyValue := kv'\<rparr>) options = write_container K c options"
proof -
  have kvd: "kvdBuffer K (c\<lparr>keyValue := kv'\<rparr>) opts = kvdBuffer K c opts" for opts
    using keyValueList_cong [OF assms(1-3)] by (simp add: kvdBuffer_def)
  have la: "levelAlign_of K (c\<lparr>keyValue := kv'\<rparr>) = levelAlign_of K c"
    using assms(4) by (simp add: levelAlign_of_def)
  have sgd: "sgdBuffer (c\<lparr>keyValue := kv'\<rparr>) = sgdBuffer c"
    by (simp add: sgdBuffer_def)
  have dfdo: "dfdByteOffset K (c\<lparr>keyValue := kv'\<rparr>) = dfdByteOffset K c"
    by (simp add: dfdByteOffset_def)
  have hdr: "headerBuffer (c\<lparr>keyValue := kv'\<rparr>) a b d e f g = headerBuffer c a b d e f g"
    for a b d e f g
    by (simp add: headerBuffer_def)
  show ?thesis
    unfolding write_container_def
    by (simp add: kvd la sgd dfdo hdr Let_def split: texel_dim.splits)
qed

theorem write_deterministic_witness:
  "write_container example_externals
     (example_container\<lparr>keyValue :=
        [(map of_char ''b'', Raw [1]), (map of_char ''a'', Text (map of_char ''x''))]\<rparr>)
     \<lparr>keepWriter = None\<rparr> =
   write_container example_externals
     (example_container\<lparr>keyValue :=
        [(map of_char ''a'', Text (map of_char ''x'')), (map of_char ''b'', Raw [1])]\<rparr>)
     \<lparr>keepWriter = None\<rparr>"
  using write_deterministic [of
      "example_container\<lparr>keyValue :=
        [(map of_char ''a'', Text (map of_char ''x'')), (map of_char ''b'', Raw [1])]\<rparr>"
      "[(map of_char ''b'', Raw [1]), (map of_char ''a'', Text (map of_char ''x''))]"
      example_externals "\<lparr>keepWriter = None\<rparr>"]
  by (simp add: example_externals_def insert_commute)

text \<open>
  C10. For a container that passes the checks and every level \<open>i\<close>: the payload of the
  level lies in the output at the cursor \<open>levelOffset\<close> of the packing loop (its true byte
  offset), and the u64 offset field of its level index entry holds that offset reduced
  modulo \<open>2 ^ 32\<close>, the loop having stored it in a \<open>Uint32Array\<close>. No error is raised:
  an offset of \<open>2 ^ 32\<close> or more is recorded as a smaller number.
\<close>

theorem level_offsets_truncated:
  assumes "passes_checks K c" and "i < length (levels c)"
  shows "write_container K c options = Inr (file_image K c options) \<and>
    slice (file_image K c options) (levelOffset K c options i)
      (levelOffset K c options i + length (levelData (levels c ! i))) = levelData (levels c ! i) \<and>
    getBigUint64 (file_image K c options) (length (KTX2_ID K) + 68 + 24 * i) =
      levelOffset K c options i mod 2 ^ 32 \<and>
    (2 ^ 32 \<le> levelOffset K c options i \<longrightarrow>
       getBigUint64 (file_image K c options) (length (KTX2_ID K) + 68 + 24 * i) <
       levelOffset K c options i)"
proof -
  have "levelOffset K c options i mod 2 ^ 32 < levelOffset K c options i"
    if "2 ^ 32 \<le> levelOffset K c options i"
  proof -
    have "levelOffset K c options i mod 2 ^ 32 < 2 ^ 32" by simp
    with that show ?thesis by linarith
  qed
  then show ?thesis
    using assms file_level_fields [OF assms(2), of K options]
      file_level_payload [OF assms(2), of K options]
    by (simp add: write_container_Inr)
qed

theorem level_offsets_truncated_witness:
  "passes_checks example_externals big_container \<and>
   0 < length (levels big_container) \<and>
   2 ^ 32 \<le> levelOffset example_externals big_container \<lparr>keepWriter = None\<rparr> 0 \<and>
   levelOffset example_externals big_container \<lparr>keepWriter = None\<rparr> 0 = 4294967504 \<and>
   getBigUint64 (file_image example_externals big_container \<lparr>keepWriter = None\<rparr>) 80 = 208"
proof -
  have n: "0 < length (levels big_container)"
    by (simp add: big_container_def)
  have id: "length (KTX2_ID example_externals) = 12"
    by (simp add: example_externals_def)
  show ?thesis
    using level_offsets_truncated [OF passes_big n, of "\<lparr>keepWriter = None\<rparr>"] passes_big n
    by (simp add: big_offsets id)
qed

end
